theory Spec2Isabelle
  imports Complex_Main
begin

section \<open>The vector store (vector\_store.py)\<close>

subsection \<open>Python values and errors\<close>

text \<open>
  The exceptions the modelled code can meet. \<open>add_documents\<close> and
  \<open>similarity_search\<close> catch every exception and raise a new one whose message
  names the operation; the wrapped exception is kept as the argument.
\<close>

datatype py_exc = ValueError | IndexError | AssertionError

datatype error = Error_adding_documents py_exc | Error_during_similarity_search py_exc

text \<open>
  Subscripting a Python list, \<open>xs[i]\<close>. Positions \<open>0 .. len - 1\<close> are read as
  they are, positions \<open>-len .. -1\<close> are read from the end, every other position
  raises IndexError.
\<close>

definition py_get :: "'a list \<Rightarrow> int \<Rightarrow> py_exc + 'a" where
  "py_get xs i =
     (if 0 \<le> i \<and> i < int (length xs) then Inr (xs ! nat i)
      else if i < 0 \<and> - int (length xs) \<le> i then Inr (xs ! nat (int (length xs) + i))
      else Inl IndexError)"

subsection \<open>numpy arrays and the FAISS index\<close>

text \<open>
  \<open>np.array(rows, dtype=np.float32)\<close> on a list of lists: a matrix with
  \<open>shape = (nrows, ncols)\<close> when every row has the same width, ValueError when the
  rows are ragged. The code only builds arrays from non-empty lists (the empty list gives a
  one-dimensional array, whose \<open>shape[1]\<close> does not exist).
\<close>

record 'a ndarray =
  ncols :: nat
  rows :: "'a list list"

definition np_array :: "'a list list \<Rightarrow> py_exc + 'a ndarray" where
  "np_array rs =
     (case rs of
        [] \<Rightarrow> Inl IndexError
      | r # rest \<Rightarrow>
          if list_all (\<lambda>x. length x = length r) rest
          then Inr \<lparr>ncols = length r, rows = rs\<rparr>
          else Inl ValueError)"

text \<open>
  The numeric kernels of the FAISS library are parameters of the model: the row-wise
  L2 normalisation, the inner product of two vectors, and the score FAISS reports for a
  result slot it could not fill (the lowest float). The floats FAISS compares are values of
  a linearly ordered type of scores; a NaN, which compares false with every float, is
  \<open>None\<close>. The vector components \<open>'a\<close> are the 32-bit floats of the source; no
  property below depends on how they round.
\<close>

record ('a, 's) faiss =
  normalize_row :: "'a list \<Rightarrow> 'a list"
  inner_product :: "'a list \<Rightarrow> 'a list \<Rightarrow> 's option"
  no_result_score :: 's

text \<open>\<open>faiss.normalize_L2(x)\<close> normalises every row of the matrix, in place.\<close>

definition normalize_L2 :: "('a, 's) faiss \<Rightarrow> 'a ndarray \<Rightarrow> 'a ndarray" where
  "normalize_L2 fk x = x\<lparr>rows := map (normalize_row fk) (rows x)\<rparr>"

text \<open>
  \<open>faiss.IndexFlatIP(d)\<close>: the exact inner-product index, the vectors it holds in
  the order they were added. \<open>ntotal\<close> is their number.
\<close>

record 'a IndexFlatIP =
  index_d :: nat
  index_vectors :: "'a list list"

definition IndexFlatIP_new :: "nat \<Rightarrow> 'a IndexFlatIP" where
  "IndexFlatIP_new dm = \<lparr>index_d = dm, index_vectors = []\<rparr>"

definition ntotal :: "'a IndexFlatIP \<Rightarrow> nat" where
  "ntotal ix = length (index_vectors ix)"

text \<open>\<open>index.add(x)\<close> asserts \<open>x.shape[1] == index.d\<close> and appends the rows.\<close>

definition index_add :: "'a IndexFlatIP \<Rightarrow> 'a ndarray \<Rightarrow> py_exc + 'a IndexFlatIP" where
  "index_add ix x =
     (if ncols x \<noteq> index_d ix then Inl AssertionError
      else Inr (ix\<lparr>index_vectors := index_vectors ix @ rows x\<rparr>))"

text \<open>
  \<open>index.search(x, k)\<close> asserts \<open>x.shape[1] == index.d\<close> and \<open>k > 0\<close>, and
  returns for each query row \<open>k\<close> pairs (score, position), best score first. Every
  slot starts as the filler (the lowest float, position \<open>-1\<close>) and a vector enters the
  result only when its score compares above the score it would replace: a vector whose
  score is NaN, or not above the lowest float, is never returned, and the slots that could
  not be filled keep position \<open>-1\<close>. Of two vectors of equal score the one added first
  is put first; FAISS documents no order among equal scores and no theorem depends on it.
\<close>

definition heap_candidates :: "('a, 's::linorder) faiss \<Rightarrow> 'a IndexFlatIP \<Rightarrow> 'a list \<Rightarrow> ('s \<times> int) list" where
  "heap_candidates fk ix q =
     List.map_filter
       (\<lambda>(i, v). case inner_product fk v q of
                    None \<Rightarrow> None
                  | Some sc \<Rightarrow> if no_result_score fk < sc then Some (sc, int i) else None)
       (enumerate 0 (index_vectors ix))"

definition search_row :: "('a, 's::linorder) faiss \<Rightarrow> 'a IndexFlatIP \<Rightarrow> nat \<Rightarrow> 'a list \<Rightarrow> ('s \<times> int) list" where
  "search_row fk ix k q =
     (let best = take k (rev (sort_key fst (rev (heap_candidates fk ix q))))
      in best @ replicate (k - length best) (no_result_score fk, - 1))"

definition index_search :: "('a, 's::linorder) faiss \<Rightarrow> 'a IndexFlatIP \<Rightarrow> 'a ndarray \<Rightarrow> int \<Rightarrow> py_exc + ('s \<times> int) list list" where
  "index_search fk ix x k =
     (if ncols x \<noteq> index_d ix then Inl AssertionError
      else if k \<le> 0 then Inl AssertionError
      else Inr (map (search_row fk ix (nat k)) (rows x)))"

subsection \<open>The store and the two artifacts on disk\<close>

record ('a, 'm) VectorStore =
  dimension :: int
  index :: "'a IndexFlatIP option"
  texts :: "string list"
  metadatas :: "'m list"

text \<open>
  A file is absent, holds something that cannot be read back, or holds a value. The
  pickled dictionary is read with \<open>data.get(key, default)\<close>, so each key may be missing.
\<close>

datatype 'x artifact = Absent | Unreadable | Stored 'x

record 'm pickled =
  pk_texts :: "string list option"
  pk_metadatas :: "'m list option"
  pk_dimension :: "int option"

record ('a, 'm) disk =
  index_file :: "'a IndexFlatIP artifact"
  metadata_file :: "'m pickled artifact"

text \<open>
  What a write does is not decided by the program: it succeeds, fails before the file is
  opened for writing (the file keeps its content), or fails after (the file is left
  truncated or partial). The outcome of the two writes of \<open>_save_index\<close> is an input
  of the model.
\<close>

datatype write_outcome = Written | Failed_before_open | Failed_partway

record save_env =
  write_index_outcome :: write_outcome
  pickle_dump_outcome :: write_outcome

definition write_file :: "write_outcome \<Rightarrow> 'x \<Rightarrow> 'x artifact \<Rightarrow> bool \<times> 'x artifact" where
  "write_file w x f =
     (case w of
        Written \<Rightarrow> (True, Stored x)
      | Failed_before_open \<Rightarrow> (False, f)
      | Failed_partway \<Rightarrow> (False, Unreadable))"

text \<open>
  \<open>_save_index\<close>: writes the index (when there is one), then the pickled dictionary.
  An exception of either write is caught and printed, so the function always returns; a
  failed index write skips the pickle.
\<close>

definition save_index :: "save_env \<Rightarrow> ('a, 'm) VectorStore \<Rightarrow> ('a, 'm) disk \<Rightarrow> ('a, 'm) disk" where
  "save_index env s dk =
     (let (ok, f1) = (case index s of
                        None \<Rightarrow> (True, index_file dk)
                      | Some ix \<Rightarrow> write_file (write_index_outcome env) ix (index_file dk))
      in if \<not> ok then dk\<lparr>index_file := f1\<rparr>
         else dk\<lparr>index_file := f1,
                 metadata_file := snd (write_file (pickle_dump_outcome env)
                     \<lparr>pk_texts = Some (texts s), pk_metadatas = Some (metadatas s),
                      pk_dimension = Some (dimension s)\<rparr> (metadata_file dk))\<rparr>)"

text \<open>Whether \<open>_save_index\<close> met an exception (which it swallowed).\<close>

definition save_failed :: "save_env \<Rightarrow> ('a, 'm) VectorStore \<Rightarrow> bool" where
  "save_failed env s =
     ((index s \<noteq> None \<and> write_index_outcome env \<noteq> Written) \<or> pickle_dump_outcome env \<noteq> Written)"

text \<open>
  \<open>_load_index\<close>: reads the pickled dictionary when its file exists, then the index
  when its file exists and the texts just read are not empty. Any exception empties the
  store (the dimension keeps the value it had when the exception was raised).
\<close>

definition load_index :: "('a, 'm) VectorStore \<Rightarrow> ('a, 'm) disk \<Rightarrow> ('a, 'm) VectorStore" where
  "load_index s dk =
     (case metadata_file dk of
        Unreadable \<Rightarrow> s\<lparr>index := None, texts := [], metadatas := []\<rparr>
      | mf \<Rightarrow>
          (let s1 = (case mf of
                       Stored data \<Rightarrow>
                         s\<lparr>texts := (case pk_texts data of None \<Rightarrow> [] | Some t \<Rightarrow> t),
                           metadatas := (case pk_metadatas data of None \<Rightarrow> [] | Some m \<Rightarrow> m),
                           dimension := (case pk_dimension data of None \<Rightarrow> 1536 | Some dm \<Rightarrow> dm)\<rparr>
                     | _ \<Rightarrow> s)
           in if index_file dk \<noteq> Absent \<and> texts s1 \<noteq> [] then
                (case index_file dk of
                   Stored ix \<Rightarrow> s1\<lparr>index := Some ix\<rparr>
                 | _ \<Rightarrow> s1\<lparr>index := None, texts := [], metadatas := []\<rparr>)
              else s1))"

text \<open>\<open>VectorStore(dimension)\<close>: the constructor, run against the disk it finds.\<close>

definition VectorStore_init :: "int \<Rightarrow> ('a, 'm) disk \<Rightarrow> ('a, 'm) VectorStore" where
  "VectorStore_init dm dk =
     load_index \<lparr>dimension = dm, index = None, texts = [], metadatas = []\<rparr> dk"

text \<open>
  \<open>add_documents\<close>. The result pairs what the caller sees (the wrapped exception, or a
  normal return) with the store and the disk the call leaves behind.
\<close>

definition add_documents ::
  "('a, 's) faiss \<Rightarrow> save_env \<Rightarrow> string list \<Rightarrow> 'a list list \<Rightarrow> 'm list \<Rightarrow>
   ('a, 'm) VectorStore \<times> ('a, 'm) disk \<Rightarrow> (error + unit) \<times> ('a, 'm) VectorStore \<times> ('a, 'm) disk" where
  "add_documents fk env ts es ms w =
     (let (s, dk) = w in
      if ts = [] \<or> es = [] then (Inr (), s, dk)
      else
        (case np_array es of
           Inl ex \<Rightarrow> (Inl (Error_adding_documents ex), s, dk)
         | Inr embeddings_array \<Rightarrow>
             (let s1 = (if index s = None
                        then s\<lparr>dimension := int (ncols embeddings_array),
                               index := Some (IndexFlatIP_new (ncols embeddings_array)),
                               texts := [], metadatas := []\<rparr>
                        else s)
              in case index s1 of
                   None \<Rightarrow> (Inl (Error_adding_documents AssertionError), s1, dk)
                 | Some ix \<Rightarrow>
                     (case index_add ix (normalize_L2 fk embeddings_array) of
                        Inl ex \<Rightarrow> (Inl (Error_adding_documents ex), s1, dk)
                      | Inr ix' \<Rightarrow>
                          (let s2 = s1\<lparr>index := Some ix',
                                       texts := texts s1 @ ts,
                                       metadatas := metadatas s1 @ ms\<rparr>
                           in (Inr (), s2, save_index env s2 dk))))))"

text \<open>\<open>clear\<close>: forgets the index and both lists and removes both files.\<close>

definition clear :: "('a, 'm) VectorStore \<times> ('a, 'm) disk \<Rightarrow> ('a, 'm) VectorStore \<times> ('a, 'm) disk" where
  "clear w =
     (let (s, dk) = w in
      (s\<lparr>index := None, texts := [], metadatas := []\<rparr>,
       dk\<lparr>index_file := Absent, metadata_file := Absent\<rparr>))"

record stats =
  total_documents :: nat
  vector_dimensions :: int
  index_size :: nat

definition get_stats :: "('a, 'm) VectorStore \<Rightarrow> stats" where
  "get_stats s =
     \<lparr>total_documents = length (texts s),
      vector_dimensions = (case index s of None \<Rightarrow> 0 | Some ix \<Rightarrow> dimension s),
      index_size = (case index s of None \<Rightarrow> 0 | Some ix \<Rightarrow> ntotal ix)\<rparr>"

subsection \<open>Similarity search\<close>

record ('m, 's) search_result =
  r_text :: string
  r_metadata :: 'm
  r_score :: 's
  r_rank :: int

text \<open>
  The loop over \<open>enumerate(zip(scores[0], indices[0]))\<close>: a position below
  \<open>len(texts)\<close> is looked up in both lists (by Python indexing) and appended with rank
  \<open>i + 1\<close>; other positions are skipped.
\<close>

fun collect_results ::
  "('a, 'm) VectorStore \<Rightarrow> nat \<Rightarrow> ('s \<times> int) list \<Rightarrow> ('m, 's) search_result list \<Rightarrow>
   py_exc + ('m, 's) search_result list" where
  "collect_results s i [] results = Inr results"
| "collect_results s i ((sc, idx) # rest) results =
     (if idx < int (length (texts s)) then
        (case py_get (texts s) idx of
           Inl ex \<Rightarrow> Inl ex
         | Inr t \<Rightarrow>
             (case py_get (metadatas s) idx of
                Inl ex \<Rightarrow> Inl ex
              | Inr m \<Rightarrow>
                  collect_results s (Suc i) rest
                    (results @ [\<lparr>r_text = t, r_metadata = m, r_score = sc, r_rank = int i + 1\<rparr>])))
      else collect_results s (Suc i) rest results)"

definition similarity_search ::
  "('a, 's::linorder) faiss \<Rightarrow> 'a list \<Rightarrow> int \<Rightarrow> ('a, 'm) VectorStore \<Rightarrow>
   error + ('m, 's) search_result list" where
  "similarity_search fk query_embedding k s =
     (case index s of
        None \<Rightarrow> Inr []
      | Some ix \<Rightarrow>
          if length (texts s) = 0 then Inr []
          else
            (case np_array [query_embedding] of
               Inl ex \<Rightarrow> Inl (Error_during_similarity_search ex)
             | Inr query_array \<Rightarrow>
                 (case index_search fk ix (normalize_L2 fk query_array)
                         (min k (int (length (texts s)))) of
                    Inl ex \<Rightarrow> Inl (Error_during_similarity_search ex)
                  | Inr [] \<Rightarrow> Inl (Error_during_similarity_search IndexError)
                  | Inr (hits # _) \<Rightarrow>
                      (case collect_results s 0 hits [] of
                         Inl ex \<Rightarrow> Inl (Error_during_similarity_search ex)
                       | Inr results \<Rightarrow> Inr results))))"

subsection \<open>Reference kernels, histories and runs\<close>

text \<open>
  Exact real arithmetic in place of the floating-point kernels, used where a theorem is
  instantiated at concrete vectors.
\<close>

definition exact_kernels :: "(real, real) faiss" where
  "exact_kernels =
     \<lparr>normalize_row = (\<lambda>v. let n = sqrt (sum_list (map (\<lambda>x. x * x) v))
                            in if 0 < n then map (\<lambda>x. x / n) v else v),
      inner_product = (\<lambda>v q. Some (sum_list (map2 (*) v q))),
      no_result_score = - 340282346638528859811704183484516925440\<rparr>"

text \<open>
  Position consistency: the two lists and the index hold the same number of entries (an
  index that was never created holds none, as \<open>get_stats\<close> reports it).
\<close>

definition position_consistent :: "('a, 'm) VectorStore \<Rightarrow> bool" where
  "position_consistent s =
     (length (texts s) = length (metadatas s) \<and> length (texts s) = index_size (get_stats s))"

text \<open>The vectors the index holds, none when there is no index.\<close>

definition stored_vectors :: "('a, 'm) VectorStore \<Rightarrow> 'a list list" where
  "stored_vectors s = (case index s of None \<Rightarrow> [] | Some ix \<Rightarrow> index_vectors ix)"

text \<open>
  The mutating operations of a store, each \<open>add_documents\<close> with its arguments and
  the outcome of its two writes. A run is instrumented with a history: the triples
  (normalised vector, text, metadata) handed over, position by position, by the calls
  that returned normally since the last \<open>clear\<close>. \<open>trace\<close> lists the state
  after every operation of a run.
\<close>

datatype ('a, 'm) operation = Add_documents save_env "string list" "'a list list" "'m list" | Clear

fun equal_lengths :: "('a, 'm) operation \<Rightarrow> bool" where
  "equal_lengths (Add_documents env ts es ms) = (length ts = length es \<and> length es = length ms)"
| "equal_lengths Clear = True"


type_synonym ('a, 'm) history = "('a list \<times> string \<times> 'm) list"

fun step :: "('a, 's) faiss \<Rightarrow> (('a, 'm) VectorStore \<times> ('a, 'm) disk) \<times> ('a, 'm) history \<Rightarrow> ('a, 'm) operation \<Rightarrow>
    (('a, 'm) VectorStore \<times> ('a, 'm) disk) \<times> ('a, 'm) history" where
  "step fk (w, h) Clear = (clear w, [])"
| "step fk (w, h) (Add_documents env ts es ms) =
     (case add_documents fk env ts es ms w of
        (Inr u, w') \<Rightarrow> (w', h @ zip (map (normalize_row fk) es) (zip ts ms))
      | (Inl ex, w') \<Rightarrow> (w', h))"

fun trace :: "('a, 's) faiss \<Rightarrow> (('a, 'm) VectorStore \<times> ('a, 'm) disk) \<times> ('a, 'm) history \<Rightarrow> ('a, 'm) operation list \<Rightarrow>
    ((('a, 'm) VectorStore \<times> ('a, 'm) disk) \<times> ('a, 'm) history) list" where
  "trace fk wh [] = []"
| "trace fk wh (opn # ops) = (let wh' = step fk wh opn in wh' # trace fk wh' ops)"

text \<open>
  Position integrity of a store against a history: the Nth vector, the Nth text and the Nth
  metadata of the store are those of the Nth triple handed over.
\<close>

definition position_integrity :: "('a, 'm) VectorStore \<Rightarrow> ('a, 'm) history \<Rightarrow> bool" where
  "position_integrity s h =
     (stored_vectors s = map fst h \<and> texts s = map (fst \<circ> snd) h \<and> metadatas s = map (snd \<circ> snd) h)"

text \<open>A disk without artifacts, and the writes that both succeed.\<close>

definition no_snapshot :: "('a, 'm) disk" where
  "no_snapshot = \<lparr>index_file = Absent, metadata_file = Absent\<rparr>"

definition all_written :: save_env where
  "all_written = \<lparr>write_index_outcome = Written, pickle_dump_outcome = Written\<rparr>"

text \<open>Writes of which the index succeeds and the pickle fails partway.\<close>

definition pickle_fails :: save_env where
  "pickle_fails = \<lparr>write_index_outcome = Written, pickle_dump_outcome = Failed_partway\<rparr>"

text \<open>
  The two checks an \<open>add_documents\<close> call with non-empty arguments can fail: numpy
  refuses ragged rows, and an existing index refuses rows of another width.
\<close>

definition embeddings_rejected :: "('a, 'm) VectorStore \<Rightarrow> 'a list list \<Rightarrow> bool" where
  "embeddings_rejected s es =
     (case np_array es of
        Inl ex \<Rightarrow> True
      | Inr x \<Rightarrow> (case index s of None \<Rightarrow> False | Some ix \<Rightarrow> ncols x \<noteq> index_d ix))"


text \<open>
  The place a Python index within range reads, and the result the loop of
  \<open>similarity_search\<close> builds from the hit at place \<open>j\<close> of the list FAISS
  returned.
\<close>

definition py_position :: "nat \<Rightarrow> int \<Rightarrow> nat" where
  "py_position n idx = nat (if idx < 0 then int n + idx else idx)"

definition hit_result :: "('a, 'm) VectorStore \<Rightarrow> nat \<times> ('s \<times> int) \<Rightarrow> ('m, 's) search_result" where
  "hit_result s = (\<lambda>(j, (sc, idx)).
      \<lparr>r_text = texts s ! py_position (length (texts s)) idx,
       r_metadata = metadatas s ! py_position (length (metadatas s)) idx,
       r_score = sc, r_rank = int j + 1\<rparr>)"

text \<open>A store holding two documents, with unit vectors.\<close>

definition two_documents :: "(real, (string \<times> string) list) VectorStore" where
  "two_documents =
     \<lparr>dimension = 2, index = Some \<lparr>index_d = 2, index_vectors = [[0, 1], [1, 0]]\<rparr>,
      texts = [''up'', ''right''],
      metadatas = [[(''source'', ''a.txt'')], [(''source'', ''b.txt'')]]\<rparr>"

section \<open>The chunker (utils.py)\<close>

text \<open>
  Texts are lists of 8-bit characters, read as the code points below 256.
  \<open>str.isspace\<close>, which is also the class \<open>\s\<close> of the regular expressions and
  what \<open>str.strip()\<close> removes, holds for the following of them.
\<close>

definition isspace :: "char \<Rightarrow> bool" where
  "isspace c \<longleftrightarrow>
     c \<in> set [CHR 0x09, CHR 0x0A, CHR 0x0B, CHR 0x0C, CHR 0x0D, CHR 0x1C, CHR 0x1D, CHR 0x1E,
              CHR 0x1F, CHR '' '', CHR 0x85, CHR 0xA0]"

definition strip :: "string \<Rightarrow> string" where
  "strip s = rev (dropWhile isspace (rev (dropWhile isspace s)))"

text \<open>
  Python slicing \<open>xs[a:b]\<close>: a negative bound counts from the end, and both bounds are
  clipped to the list.
\<close>

definition py_slice :: "'a list \<Rightarrow> int \<Rightarrow> int \<Rightarrow> 'a list" where
  "py_slice xs a b =
     (let n = int (length xs);
          lo = (if a < 0 then max (a + n) 0 else min a n);
          hi = (if b < 0 then max (b + n) 0 else min b n)
      in take (nat (hi - lo)) (drop (nat lo) xs))"

text \<open>
  \<open>[m.end() for m in re.finditer(p + r'\s+', s)]\<close> for a punctuation character
  \<open>p\<close>: each match is \<open>p\<close> followed by the longest run of whitespace (at least
  one), matches are found from left to right and do not overlap. The counter is the offset
  of the rest of the string.
\<close>

function finditer_punct :: "char \<Rightarrow> nat \<Rightarrow> string \<Rightarrow> nat list" where
  "finditer_punct p i [] = []"
| "finditer_punct p i (c # cs) =
     (if c = p \<and> takeWhile isspace cs \<noteq> [] then
        (let n = length (takeWhile isspace cs)
         in (i + 1 + n) # finditer_punct p (i + 1 + n) (dropWhile isspace cs))
      else finditer_punct p (Suc i) cs)"
  by pat_completeness auto
termination
  by (relation "measure (\<lambda>(p, i, s). length s)") (auto simp: less_Suc_eq_le length_dropWhile_le)

text \<open>The same for the pattern \<open>\n\n\<close>.\<close>

fun finditer_blank :: "nat \<Rightarrow> string \<Rightarrow> nat list" where
  "finditer_blank i (a # b # cs) =
     (if a = CHR 0x0A \<and> b = CHR 0x0A then (i + 2) # finditer_blank (i + 2) cs
      else finditer_blank (Suc i) (b # cs))"
| "finditer_blank i cs = []"

text \<open>
  The list \<open>sentence_breaks\<close> built by the two nested loops over the four patterns,
  searched in \<open>text[search_start:end]\<close>.
\<close>

definition sentence_breaks :: "string \<Rightarrow> int \<Rightarrow> int \<Rightarrow> int list" where
  "sentence_breaks text search_start e =
     (let w = py_slice text search_start e
      in map (\<lambda>m. search_start + int m)
           (finditer_punct (CHR ''.'') 0 w @ finditer_punct (CHR ''!'') 0 w @
            finditer_punct (CHR ''?'') 0 w @ finditer_blank 0 w))"

text \<open>
  Where one iteration of the loop cuts: \<open>start + max_chunk_size\<close>, moved to the largest
  sentence break found in the last 200 characters before it when the cut is inside the text
  and there is a break.
\<close>

definition window_end :: "string \<Rightarrow> int \<Rightarrow> int \<Rightarrow> int" where
  "window_end text max_chunk_size start =
     (let e = start + max_chunk_size
      in if e < int (length text) then
           (let search_start = max (e - 200) start;
                bs = sentence_breaks text search_start e
            in if bs \<noteq> [] then Max (set bs) else e)
         else e)"

text \<open>
  The \<open>while\<close> loop of \<open>chunk_text\<close>, from a loop state (\<open>start\<close>,
  \<open>chunks\<close>) to the list it returns.
\<close>

function chunk_loop :: "string \<Rightarrow> int \<Rightarrow> int \<Rightarrow> int \<Rightarrow> string list \<Rightarrow> string list" where
  "chunk_loop text max_chunk_size overlap start chunks =
     (if start < int (length text) then
        (let e = window_end text max_chunk_size start;
             chunk = strip (py_slice text start e);
             chunks' = (if chunk \<noteq> [] then chunks @ [chunk] else chunks);
             start' = max (e - overlap) (start + 1)
         in if start' \<ge> int (length text) then chunks'
            else chunk_loop text max_chunk_size overlap start' chunks')
      else chunks)"
  by pat_completeness auto
termination
  by (relation "measure (\<lambda>(text, m, ov, start, chunks). nat (int (length text) - start))") auto

definition chunk_text :: "string \<Rightarrow> int \<Rightarrow> int \<Rightarrow> string list" where
  "chunk_text text max_chunk_size overlap =
     (if text = [] \<or> int (length text) \<le> max_chunk_size then (if text \<noteq> [] then [text] else [])
      else chunk_loop text max_chunk_size overlap 0 [])"

text \<open>
  The windows \<open>(start, end)\<close> of the iterations the loop makes from \<open>start\<close>, in
  order: the chunk of an iteration is \<open>text[start:end].strip()\<close>.
\<close>

function chunk_windows :: "string \<Rightarrow> int \<Rightarrow> int \<Rightarrow> int \<Rightarrow> (int \<times> int) list" where
  "chunk_windows text max_chunk_size overlap start =
     (if start < int (length text) then
        (let e = window_end text max_chunk_size start
         in (start, e) # chunk_windows text max_chunk_size overlap (max (e - overlap) (start + 1)))
      else [])"
  by pat_completeness auto
termination
  by (relation "measure (\<lambda>(text, m, ov, start). nat (int (length text) - start))") auto


declare chunk_loop.simps [simp del] chunk_windows.simps [simp del]

text \<open>The chunks a list of windows gives: each window trimmed, the empty ones dropped.\<close>

definition window_chunks :: "string \<Rightarrow> (int \<times> int) list \<Rightarrow> string list" where
  "window_chunks tx ws = filter (\<lambda>c. c \<noteq> []) (map (\<lambda>(s, e). strip (py_slice tx s e)) ws)"

text \<open>
  The number of iterations the loop of \<open>chunk_text\<close> makes: none when the function
  returns before the loop, otherwise one for every window.
\<close>

definition chunk_iterations :: "string \<Rightarrow> int \<Rightarrow> int \<Rightarrow> nat" where
  "chunk_iterations text max_chunk_size overlap =
     (if text = [] \<or> int (length text) \<le> max_chunk_size then 0
      else length (chunk_windows text max_chunk_size overlap 0))"

text \<open>
  A text in which no sentence break can be found: it has no full stop, exclamation mark,
  question mark or newline.
\<close>

definition no_boundary_chars :: "string \<Rightarrow> bool" where
  "no_boundary_chars tx \<longleftrightarrow> set tx \<inter> {CHR ''.'', CHR ''!'', CHR ''?'', CHR 0x0A} = {}"

section \<open>Properties of the vector store\<close>

lemma add_documents_noop:
  "ts = [] \<or> es = [] \<Longrightarrow> add_documents fk env ts es ms (s, dk) = (Inr (), s, dk)"
  by (simp add: add_documents_def)

lemma np_array_Inr:
  "np_array es = Inr x \<Longrightarrow> rows x = es \<and> es \<noteq> [] \<and> (\<forall>r \<in> set es. length r = ncols x)"
  by (auto simp: np_array_def list_all_iff split: list.splits if_splits)

lemma add_documents_raise:
  assumes "add_documents fk env ts es ms (s, dk) = (Inl e, w')"
  shows "w' = (s, dk) \<and> (\<exists>ex. e = Error_adding_documents ex)"
  using assms
  by (auto simp: add_documents_def Let_def index_add_def IndexFlatIP_new_def normalize_L2_def
      split: if_splits sum.splits option.splits)

lemma add_documents_return:
  assumes "add_documents fk env ts es ms (s, dk) = (Inr u, s', dk')" "ts \<noteq> []" "es \<noteq> []"
  shows "\<exists>x ix0. np_array es = Inr x \<and>
           ix0 = (case index s of None \<Rightarrow> IndexFlatIP_new (ncols x) | Some ix \<Rightarrow> ix) \<and>
           ncols x = index_d ix0 \<and>
           index s' = Some (ix0\<lparr>index_vectors := index_vectors ix0 @ map (normalize_row fk) es\<rparr>) \<and>
           texts s' = (if index s = None then [] else texts s) @ ts \<and>
           metadatas s' = (if index s = None then [] else metadatas s) @ ms \<and>
           dimension s' = (if index s = None then int (ncols x) else dimension s) \<and>
           dk' = save_index env s' dk"
  using assms
  by (auto simp: add_documents_def Let_def index_add_def IndexFlatIP_new_def normalize_L2_def
      dest!: np_array_Inr split: if_splits sum.splits option.splits)

lemma position_integrity_consistent:
  "position_integrity s h \<Longrightarrow> position_consistent s"
proof -
  assume a: "position_integrity s h"
  then have "length (stored_vectors s) = length h" "length (texts s) = length h"
    "length (metadatas s) = length h"
    by (simp_all add: position_integrity_def)
  then show ?thesis
    by (simp add: position_consistent_def get_stats_def stored_vectors_def ntotal_def
        split: option.splits)
qed

lemma clear_integrity: "clear (s, dk) = (s', dk') \<Longrightarrow> position_integrity s' []"
  by (auto simp: clear_def position_integrity_def stored_vectors_def)

lemma zip3_projections:
  assumes "length bs = length as" "length as = length cs"
  shows "map fst (zip as (zip bs cs)) = as"
    and "map (fst \<circ> snd) (zip as (zip bs cs)) = bs"
    and "map (snd \<circ> snd) (zip as (zip bs cs)) = cs"
proof -
  have l: "length as = length (zip bs cs)" using assms by simp
  show "map fst (zip as (zip bs cs)) = as" using l by (rule map_fst_zip)
  have "map snd (zip as (zip bs cs)) = zip bs cs" using l by (rule map_snd_zip)
  then have "map fst (map snd (zip as (zip bs cs))) = bs"
       and "map snd (map snd (zip as (zip bs cs))) = cs"
    using assms by simp_all
  then show "map (fst \<circ> snd) (zip as (zip bs cs)) = bs"
        and "map (snd \<circ> snd) (zip as (zip bs cs)) = cs"
    by simp_all
qed

lemma add_documents_integrity:
  assumes "position_integrity s h" "length ts = length es" "length es = length ms"
    and "add_documents fk env ts es ms (s, dk) = (Inr u, s', dk')"
  shows "position_integrity s' (h @ zip (map (normalize_row fk) es) (zip ts ms))"
proof (cases "ts = [] \<or> es = []")
  case True
  with assms show ?thesis by (auto simp: add_documents_noop)
next
  case False
  then have ne: "ts \<noteq> []" "es \<noteq> []" by auto
  from add_documents_return[OF assms(4) ne] obtain x ix0 where
    r: "np_array es = Inr x" "ix0 = (case index s of None \<Rightarrow> IndexFlatIP_new (ncols x) | Some ix \<Rightarrow> ix)"
       "index s' = Some (ix0\<lparr>index_vectors := index_vectors ix0 @ map (normalize_row fk) es\<rparr>)"
       "texts s' = (if index s = None then [] else texts s) @ ts"
       "metadatas s' = (if index s = None then [] else metadatas s) @ ms"
    by blast
  have z: "map fst (zip (map (normalize_row fk) es) (zip ts ms)) = map (normalize_row fk) es"
          "map (fst \<circ> snd) (zip (map (normalize_row fk) es) (zip ts ms)) = ts"
          "map (snd \<circ> snd) (zip (map (normalize_row fk) es) (zip ts ms)) = ms"
    using assms(2,3) by (simp_all add: zip3_projections)
  show ?thesis
  proof (cases "index s")
    case None
    with assms(1) have "h = []" by (simp add: position_integrity_def stored_vectors_def)
    with None r z show ?thesis
      by (simp add: position_integrity_def stored_vectors_def IndexFlatIP_new_def)
  next
    case (Some ix)
    with assms(1) r z show ?thesis
      by (simp add: position_integrity_def stored_vectors_def)
  qed
qed

lemma step_integrity:
  assumes "position_integrity s h" "equal_lengths opn" "step fk ((s, dk), h) opn = ((s', dk'), h')"
  shows "position_integrity s' h'"
proof (cases opn)
  case Clear
  with assms show ?thesis by (auto dest: clear_integrity)
next
  case (Add_documents env ts es ms)
  show ?thesis
  proof (cases "add_documents fk env ts es ms (s, dk)")
    case (fields r s1 dk1)
    show ?thesis
    proof (cases r)
      case (Inl e)
      with fields add_documents_raise[of fk env ts es ms s dk e "(s1, dk1)"] assms Add_documents
      show ?thesis by auto
    next
      case (Inr u)
      with fields add_documents_integrity[of s h ts es ms fk env dk u s1 dk1] assms Add_documents
      show ?thesis by auto
    qed
  qed
qed

lemma trace_integrity:
  "position_integrity s0 h0 \<Longrightarrow> \<forall>opn \<in> set ops. equal_lengths opn \<Longrightarrow>
   ((s, dk), h) \<in> set (trace fk ((s0, dk0), h0) ops) \<Longrightarrow> position_integrity s h"
proof (induction ops arbitrary: s0 dk0 h0)
  case Nil
  then show ?case by simp
next
  case (Cons opn ops)
  obtain s1 dk1 h1 where st: "step fk ((s0, dk0), h0) opn = ((s1, dk1), h1)"
    by (metis surj_pair)
  from Cons.prems(1,2) st have i1: "position_integrity s1 h1"
    by (auto intro: step_integrity)
  from Cons.prems(3) st have "((s, dk), h) = ((s1, dk1), h1) \<or> ((s, dk), h) \<in> set (trace fk ((s1, dk1), h1) ops)"
    by (simp add: Let_def)
  then show ?case
  proof
    assume "((s, dk), h) = ((s1, dk1), h1)"
    with i1 show ?thesis by simp
  next
    assume "((s, dk), h) \<in> set (trace fk ((s1, dk1), h1) ops)"
    with Cons.IH[OF i1] Cons.prems(2) show ?thesis by simp
  qed
qed

subsection \<open>Position integrity\<close>

text \<open>
  Claim C1, as amended. From a store that is position-consistent with a history (as a store
  constructed without a snapshot is, with the empty history), after every operation of
  every sequence of \<open>clear\<close> and \<open>add_documents\<close> calls with arguments of equal
  lengths, the texts, the metadatas and the vectors of the index are equally many, and the
  Nth vector, the Nth text and the Nth metadata are those of the Nth triple added since the
  last \<open>clear\<close>, in the order of insertion.
\<close>

theorem position_integrity_invariant:
  assumes "position_integrity s0 h0" and "\<forall>opn \<in> set ops. equal_lengths opn"
  shows "\<forall>((s, dk), h) \<in> set (trace fk ((s0, dk0), h0) ops).
           position_consistent s \<and> position_integrity s h"
  using assms by (auto dest: trace_integrity position_integrity_consistent)


theorem position_integrity_invariant_witness:
  "position_integrity (VectorStore_init 768 no_snapshot :: (real, (string \<times> string) list) VectorStore) [] \<and>
   list_all equal_lengths
     [Add_documents all_written [''The cat sat on the mat.'', ''Dogs bark.''] [[1, 0, 0], [0, 1, 0]]
        [[(''source'', ''a.txt'')], [(''source'', ''b.txt'')]],
      Clear,
      Add_documents all_written [''Birds sing.''] [[0, 1]] [[(''source'', ''c.txt'')]]] \<and>
   list_all (\<lambda>((s, dk), h). position_consistent s \<and> position_integrity s h)
     (trace exact_kernels ((VectorStore_init 768 no_snapshot, no_snapshot), [])
       [Add_documents all_written [''The cat sat on the mat.'', ''Dogs bark.''] [[1, 0, 0], [0, 1, 0]]
          [[(''source'', ''a.txt'')], [(''source'', ''b.txt'')]],
        Clear,
        Add_documents all_written [''Birds sing.''] [[0, 1]] [[(''source'', ''c.txt'')]]])"
proof -
  let ?s0 = "VectorStore_init 768 no_snapshot :: (real, (string \<times> string) list) VectorStore"
  let ?ops = "[Add_documents all_written [''The cat sat on the mat.'', ''Dogs bark.''] [[1, 0, 0], [0, 1, 0]]
        [[(''source'', ''a.txt'')], [(''source'', ''b.txt'')]],
      Clear,
      Add_documents all_written [''Birds sing.''] [[0, 1]] [[(''source'', ''c.txt'')]]]
      :: (real, (string \<times> string) list) operation list"
  have h1: "position_integrity ?s0 []"
    by (simp add: position_integrity_def stored_vectors_def VectorStore_init_def load_index_def
        no_snapshot_def)
  have h2: "\<forall>opn \<in> set ?ops. equal_lengths opn" by simp
  from position_integrity_invariant[OF h1 h2, of exact_kernels no_snapshot] h1 h2
  show ?thesis unfolding list_all_iff by simp
qed

text \<open>
  The claim does not hold for every store: one constructed over a metadata artifact without
  an index artifact holds a text and no index, and a call with three empty lists returns
  at once and leaves it so.
\<close>

theorem position_integrity_counterexample:
  "\<not> (\<forall>((s, dk), h) \<in> set (trace exact_kernels
          ((VectorStore_init 1536
              \<lparr>index_file = Absent,
               metadata_file = Stored \<lparr>pk_texts = Some [''old text''],
                  pk_metadatas = Some [[(''source'', ''a.txt'')]], pk_dimension = Some 3\<rparr>\<rparr>,
            \<lparr>index_file = Absent,
             metadata_file = Stored \<lparr>pk_texts = Some [''old text''],
                  pk_metadatas = Some [[(''source'', ''a.txt'')]], pk_dimension = Some 3\<rparr>\<rparr>), [])
          [Add_documents all_written [] [] []]).
        position_consistent s)"
  by (simp add: VectorStore_init_def load_index_def add_documents_def position_consistent_def
      get_stats_def)

subsection \<open>What \<open>add_documents\<close> checks\<close>

lemma add_documents_accepts:
  assumes "ts \<noteq> []" "es \<noteq> []" "\<not> embeddings_rejected s es"
  shows "\<exists>s' dk'. add_documents fk env ts es ms (s, dk) = (Inr (), s', dk') \<and>
           stored_vectors s' = (if index s = None then [] else stored_vectors s) @ map (normalize_row fk) es \<and>
           texts s' = (if index s = None then [] else texts s) @ ts \<and>
           metadatas s' = (if index s = None then [] else metadatas s) @ ms \<and>
           dimension s' = (if index s = None then int (length (hd es)) else dimension s) \<and>
           (\<exists>ix. index s' = Some ix \<and>
              index_d ix = (case index s of None \<Rightarrow> length (hd es) | Some ix0 \<Rightarrow> index_d ix0)) \<and>
           dk' = save_index env s' dk"
  using assms
  by (auto simp: add_documents_def embeddings_rejected_def Let_def index_add_def IndexFlatIP_new_def
      normalize_L2_def stored_vectors_def np_array_def
      split: if_splits sum.splits option.splits list.splits)

lemma add_documents_rejects:
  assumes "ts \<noteq> []" "es \<noteq> []" "embeddings_rejected s es"
  shows "\<exists>ex. add_documents fk env ts es ms (s, dk) = (Inl (Error_adding_documents ex), s, dk)"
  using assms
  by (auto simp: add_documents_def embeddings_rejected_def Let_def index_add_def IndexFlatIP_new_def
      normalize_L2_def split: if_splits sum.splits option.splits)

text \<open>
  Claim C2, as amended. \<open>add_documents\<close> never compares the lengths of its three
  arguments. A call with non-empty texts and embeddings raises exactly when the embeddings
  are ragged or their width differs from the dimension of the existing index, and then the
  store and the disk are unchanged; every other such call returns normally and appends all
  the embeddings to the index, all the texts and all the metadatas, whatever their numbers.
\<close>

theorem add_documents_no_length_validation:
  assumes "ts \<noteq> []" "es \<noteq> []"
  shows "if embeddings_rejected s es
         then \<exists>ex. add_documents fk env ts es ms (s, dk) = (Inl (Error_adding_documents ex), s, dk)
         else \<exists>s' dk'. add_documents fk env ts es ms (s, dk) = (Inr (), s', dk') \<and>
                length (stored_vectors s') = length (if index s = None then [] else stored_vectors s) + length es \<and>
                texts s' = (if index s = None then [] else texts s) @ ts \<and>
                metadatas s' = (if index s = None then [] else metadatas s) @ ms"
proof (cases "embeddings_rejected s es")
  case True
  with add_documents_rejects[OF assms True] show ?thesis by simp
next
  case False
  from add_documents_accepts[OF assms False, of fk env ms dk] obtain s' dk' where
    "add_documents fk env ts es ms (s, dk) = (Inr (), s', dk')"
    "stored_vectors s' = (if index s = None then [] else stored_vectors s) @ map (normalize_row fk) es"
    "texts s' = (if index s = None then [] else texts s) @ ts"
    "metadatas s' = (if index s = None then [] else metadatas s) @ ms"
    by blast
  with False show ?thesis by simp
qed

theorem add_documents_no_length_validation_witness:
  "[''a'', ''b''] \<noteq> [] \<and> [[1, 0 :: real]] \<noteq> [] \<and>
   \<not> embeddings_rejected (VectorStore_init 768 no_snapshot :: (real, (string \<times> string) list) VectorStore) [[1, 0]] \<and>
   (\<exists>s' dk'. add_documents exact_kernels all_written [''a'', ''b''] [[1, 0]] [[(''source'', ''a.txt'')]]
                 (VectorStore_init 768 no_snapshot, no_snapshot) = (Inr (), s', dk') \<and>
      length (stored_vectors s') = 1 \<and> texts s' = [''a'', ''b''] \<and> metadatas s' = [[(''source'', ''a.txt'')]])"
proof -
  let ?s = "VectorStore_init 768 no_snapshot :: (real, (string \<times> string) list) VectorStore"
  have a: "[''a'', ''b''] \<noteq> []" "[[1, 0 :: real]] \<noteq> []" by simp_all
  have i: "index ?s = None" by (simp add: VectorStore_init_def load_index_def no_snapshot_def)
  have r: "\<not> embeddings_rejected ?s [[1, 0]]"
    by (simp add: embeddings_rejected_def np_array_def i)
  from add_documents_no_length_validation[OF a, of ?s exact_kernels all_written
      "[[(''source'', ''a.txt'')]]" no_snapshot] r i
  show ?thesis by simp
qed

text \<open>
  Two texts with one embedding and one metadata: the call returns normally and leaves two
  texts beside one vector.
\<close>

theorem add_documents_validation_counterexample:
  "fst (add_documents exact_kernels all_written [''a'', ''b''] [[1, 0]] [[(''source'', ''a.txt'')]]
          (VectorStore_init 768 no_snapshot, no_snapshot)) = Inr () \<and>
   length (texts (fst (snd (add_documents exact_kernels all_written [''a'', ''b''] [[1, 0]]
          [[(''source'', ''a.txt'')]] (VectorStore_init 768 no_snapshot, no_snapshot))))) = 2 \<and>
   index_size (get_stats (fst (snd (add_documents exact_kernels all_written [''a'', ''b''] [[1, 0]]
          [[(''source'', ''a.txt'')]] (VectorStore_init 768 no_snapshot, no_snapshot))))) = 1"
  by (simp add: add_documents_def VectorStore_init_def load_index_def no_snapshot_def np_array_def
      index_add_def IndexFlatIP_new_def normalize_L2_def get_stats_def ntotal_def Let_def)

subsection \<open>Failures of persistence\<close>

lemma add_documents_env_independent:
  "fst (add_documents fk env ts es ms w) = fst (add_documents fk env' ts es ms w) \<and>
   fst (snd (add_documents fk env ts es ms w)) = fst (snd (add_documents fk env' ts es ms w))"
  by (cases w)
    (auto simp: add_documents_def Let_def index_add_def split: sum.splits option.splits)

lemma add_documents_disk:
  assumes "add_documents fk env ts es ms (s, dk) = (Inr u, s', dk')" "ts \<noteq> []" "es \<noteq> []"
  shows "dk' = save_index env s' dk \<and> index s' \<noteq> None"
  using assms
  by (auto simp: add_documents_def Let_def index_add_def split: sum.splits option.splits if_splits)

lemma save_index_outcome:
  assumes "index s = Some ix"
  shows "if save_failed env s
         then metadata_file (save_index env s dk) = metadata_file dk \<or>
              metadata_file (save_index env s dk) = Unreadable
         else index_file (save_index env s dk) = Stored ix \<and>
              metadata_file (save_index env s dk) =
                Stored \<lparr>pk_texts = Some (texts s), pk_metadatas = Some (metadatas s),
                        pk_dimension = Some (dimension s)\<rparr>"
  using assms
  by (cases "write_index_outcome env"; cases "pickle_dump_outcome env")
     (simp_all add: save_index_def save_failed_def write_file_def)

lemma add_first_document:
  "add_documents exact_kernels env [''a''] [[1, 0]] [[(''source'', ''a.txt'')]]
     (VectorStore_init 768 no_snapshot, no_snapshot) =
   (Inr (),
    \<lparr>dimension = 2, index = Some \<lparr>index_d = 2, index_vectors = [[1, 0]]\<rparr>, texts = [''a''],
      metadatas = [[(''source'', ''a.txt'')]]\<rparr>,
    save_index env
      \<lparr>dimension = 2, index = Some \<lparr>index_d = 2, index_vectors = [[1, 0]]\<rparr>, texts = [''a''],
        metadatas = [[(''source'', ''a.txt'')]]\<rparr> no_snapshot)"
  by (simp add: add_documents_def VectorStore_init_def load_index_def no_snapshot_def np_array_def
      index_add_def IndexFlatIP_new_def normalize_L2_def Let_def exact_kernels_def numeral_2_eq_2)

text \<open>
  Claim C4, as amended. What \<open>add_documents\<close> reports to its caller and the store it
  leaves in memory do not depend on the outcome of the writes: an exception of
  \<open>_save_index\<close> is caught there and never reaches the caller. A call that raises
  leaves the store and the disk as they were, and its exception is the wrapped one. A call
  that returns normally after adding has its entries in memory; when both writes succeeded
  the two artifacts hold the new index and the new lists, and when a write failed the
  metadata artifact is the old one or unreadable.
\<close>

theorem add_documents_persistence_failure:
  assumes "add_documents fk env ts es ms (s, dk) = (r, s', dk')"
  shows "fst (add_documents fk env' ts es ms (s, dk)) = r \<and>
         fst (snd (add_documents fk env' ts es ms (s, dk))) = s' \<and>
         (\<forall>e. r = Inl e \<longrightarrow> s' = s \<and> dk' = dk \<and> (\<exists>ex. e = Error_adding_documents ex)) \<and>
         (r = Inr () \<and> ts \<noteq> [] \<and> es \<noteq> [] \<longrightarrow>
            (\<exists>ix. index s' = Some ix \<and>
              (if save_failed env s'
               then metadata_file dk' = metadata_file dk \<or> metadata_file dk' = Unreadable
               else index_file dk' = Stored ix \<and>
                    metadata_file dk' =
                      Stored \<lparr>pk_texts = Some (texts s'), pk_metadatas = Some (metadatas s'),
                              pk_dimension = Some (dimension s')\<rparr>)))"
proof -
  have 1: "fst (add_documents fk env' ts es ms (s, dk)) = r \<and>
           fst (snd (add_documents fk env' ts es ms (s, dk))) = s'"
    using add_documents_env_independent[of fk env' ts es ms "(s, dk)" env] assms by simp
  have 2: "\<forall>e. r = Inl e \<longrightarrow> s' = s \<and> dk' = dk \<and> (\<exists>ex. e = Error_adding_documents ex)"
    using add_documents_raise[of fk env ts es ms s dk _ "(s', dk')"] assms by auto
  have 3: "r = Inr () \<and> ts \<noteq> [] \<and> es \<noteq> [] \<longrightarrow>
            (\<exists>ix. index s' = Some ix \<and>
              (if save_failed env s'
               then metadata_file dk' = metadata_file dk \<or> metadata_file dk' = Unreadable
               else index_file dk' = Stored ix \<and>
                    metadata_file dk' =
                      Stored \<lparr>pk_texts = Some (texts s'), pk_metadatas = Some (metadatas s'),
                              pk_dimension = Some (dimension s')\<rparr>))"
  proof
    assume a: "r = Inr () \<and> ts \<noteq> [] \<and> es \<noteq> []"
    with assms add_documents_disk[of fk env ts es ms s dk "()" s' dk']
    have d: "dk' = save_index env s' dk" and "index s' \<noteq> None" by auto
    then obtain ix where ix: "index s' = Some ix" by auto
    from save_index_outcome[OF ix, of env dk] d ix
    show "\<exists>ix. index s' = Some ix \<and>
              (if save_failed env s'
               then metadata_file dk' = metadata_file dk \<or> metadata_file dk' = Unreadable
               else index_file dk' = Stored ix \<and>
                    metadata_file dk' =
                      Stored \<lparr>pk_texts = Some (texts s'), pk_metadatas = Some (metadatas s'),
                              pk_dimension = Some (dimension s')\<rparr>)"
      by simp
  qed
  from 1 2 3 show ?thesis by blast
qed

theorem add_documents_persistence_failure_witness:
  "add_documents exact_kernels pickle_fails [''a''] [[1, 0]] [[(''source'', ''a.txt'')]]
          (VectorStore_init 768 no_snapshot, no_snapshot) =
     (Inr (),
      \<lparr>dimension = 2, index = Some \<lparr>index_d = 2, index_vectors = [[1, 0]]\<rparr>, texts = [''a''],
        metadatas = [[(''source'', ''a.txt'')]]\<rparr>,
      \<lparr>index_file = Stored \<lparr>index_d = 2, index_vectors = [[1, 0]]\<rparr>, metadata_file = Unreadable\<rparr>) \<and>
   fst (add_documents exact_kernels all_written [''a''] [[1, 0]] [[(''source'', ''a.txt'')]]
          (VectorStore_init 768 no_snapshot, no_snapshot)) = Inr () \<and>
   save_failed pickle_fails
      \<lparr>dimension = 2, index = Some \<lparr>index_d = 2, index_vectors = [[1, 0 :: real]]\<rparr>, texts = [''a''],
        metadatas = [[(''source'', ''a.txt'')]]\<rparr>"
proof -
  have a: "add_documents exact_kernels pickle_fails [''a''] [[1, 0]] [[(''source'', ''a.txt'')]]
          (VectorStore_init 768 no_snapshot, no_snapshot) =
     (Inr (),
      \<lparr>dimension = 2, index = Some \<lparr>index_d = 2, index_vectors = [[1, 0]]\<rparr>, texts = [''a''],
        metadatas = [[(''source'', ''a.txt'')]]\<rparr>,
      \<lparr>index_file = Stored \<lparr>index_d = 2, index_vectors = [[1, 0]]\<rparr>, metadata_file = Unreadable\<rparr>)"
    unfolding add_first_document
  by (simp add: save_index_def write_file_def pickle_fails_def no_snapshot_def)
  from add_documents_persistence_failure[OF a, of all_written] a
  show ?thesis by (simp add: save_failed_def pickle_fails_def)
qed

text \<open>
  A pickle that fails partway: the call returns normally, the text is in memory, the index
  artifact holds the new vector and the metadata artifact is unreadable.
\<close>

theorem add_documents_persistence_failure_counterexample:
  "fst (add_documents exact_kernels pickle_fails [''a''] [[1, 0]] [[(''source'', ''a.txt'')]]
          (VectorStore_init 768 no_snapshot, no_snapshot)) = Inr () \<and>
   texts (fst (snd (add_documents exact_kernels pickle_fails [''a''] [[1, 0]] [[(''source'', ''a.txt'')]]
          (VectorStore_init 768 no_snapshot, no_snapshot)))) = [''a''] \<and>
   index_file (snd (snd (add_documents exact_kernels pickle_fails [''a''] [[1, 0]] [[(''source'', ''a.txt'')]]
          (VectorStore_init 768 no_snapshot, no_snapshot)))) =
     Stored \<lparr>index_d = 2, index_vectors = [[1, 0]]\<rparr> \<and>
   metadata_file (snd (snd (add_documents exact_kernels pickle_fails [''a''] [[1, 0]] [[(''source'', ''a.txt'')]]
          (VectorStore_init 768 no_snapshot, no_snapshot)))) = Unreadable"
  unfolding add_first_document
  by (simp add: save_index_def write_file_def pickle_fails_def no_snapshot_def)

subsection \<open>The dimension of a store\<close>







subsection \<open>A metadata artifact without an index artifact\<close>

lemma load_metadata_only:
  assumes "index_file dk = Absent" "metadata_file dk = Stored data"
  shows "VectorStore_init dm dk =
           \<lparr>dimension = (case pk_dimension data of None \<Rightarrow> 1536 | Some dm' \<Rightarrow> dm'),
            index = None,
            texts = (case pk_texts data of None \<Rightarrow> [] | Some t \<Rightarrow> t),
            metadatas = (case pk_metadatas data of None \<Rightarrow> [] | Some m \<Rightarrow> m)\<rparr>"
  using assms by (simp add: VectorStore_init_def load_index_def)

text \<open>
  Claim C10, as amended. A store constructed over a metadata artifact that holds non-empty
  texts, with no index artifact, has no index and holds the texts and the metadatas of the
  artifact (the metadatas as the artifact has them, which may be none); \<open>get_stats\<close>
  reports a positive \<open>total_documents\<close> with \<open>index_size\<close> and
  \<open>vector_dimensions\<close> 0. An \<open>add_documents\<close> call with no texts or no embeddings
  returns with the loaded entries still in the store, one with ragged embeddings raises
  with the loaded entries still in the store, and a call with texts and rectangular
  embeddings leaves exactly its own texts, metadatas and vectors: the loaded entries are
  discarded.
\<close>

theorem metadata_without_index:
  assumes "index_file dk = Absent" "metadata_file dk = Stored data" "pk_texts data = Some old"
    "old \<noteq> []"
  shows "index (VectorStore_init dm dk) = None \<and>
         texts (VectorStore_init dm dk) = old \<and>
         metadatas (VectorStore_init dm dk) = (case pk_metadatas data of None \<Rightarrow> [] | Some m \<Rightarrow> m) \<and>
         0 < total_documents (get_stats (VectorStore_init dm dk)) \<and>
         index_size (get_stats (VectorStore_init dm dk)) = 0 \<and>
         vector_dimensions (get_stats (VectorStore_init dm dk)) = 0 \<and>
         (ts = [] \<or> es = [] \<longrightarrow>
            add_documents fk env ts es ms (VectorStore_init dm dk, dk) =
              (Inr (), VectorStore_init dm dk, dk)) \<and>
         (ts \<noteq> [] \<and> es \<noteq> [] \<and> np_array es = Inl ex \<longrightarrow>
            add_documents fk env ts es ms (VectorStore_init dm dk, dk) =
              (Inl (Error_adding_documents ex), VectorStore_init dm dk, dk)) \<and>
         (ts \<noteq> [] \<and> es \<noteq> [] \<and> np_array es = Inr x \<longrightarrow>
            (\<exists>s' dk'. add_documents fk env ts es ms (VectorStore_init dm dk, dk) = (Inr (), s', dk') \<and>
               texts s' = ts \<and> metadatas s' = ms \<and> stored_vectors s' = map (normalize_row fk) es))"
proof -
  let ?s = "VectorStore_init dm dk"
  have l: "index ?s = None" "texts ?s = old"
    "metadatas ?s = (case pk_metadatas data of None \<Rightarrow> [] | Some m \<Rightarrow> m)"
    using assms by (simp_all add: load_metadata_only)
  have g: "0 < total_documents (get_stats ?s)" "index_size (get_stats ?s) = 0"
    "vector_dimensions (get_stats ?s) = 0"
    using l assms(4) by (simp_all add: get_stats_def)
  have n: "ts = [] \<or> es = [] \<longrightarrow> add_documents fk env ts es ms (?s, dk) = (Inr (), ?s, dk)"
    by (simp add: add_documents_noop)
  have r: "ts \<noteq> [] \<and> es \<noteq> [] \<and> np_array es = Inl ex \<longrightarrow>
            add_documents fk env ts es ms (?s, dk) = (Inl (Error_adding_documents ex), ?s, dk)"
    by (simp add: add_documents_def)
  have a: "ts \<noteq> [] \<and> es \<noteq> [] \<and> np_array es = Inr x \<longrightarrow>
            (\<exists>s' dk'. add_documents fk env ts es ms (?s, dk) = (Inr (), s', dk') \<and>
               texts s' = ts \<and> metadatas s' = ms \<and> stored_vectors s' = map (normalize_row fk) es)"
  proof
    assume h: "ts \<noteq> [] \<and> es \<noteq> [] \<and> np_array es = Inr x"
    then have "\<not> embeddings_rejected ?s es" by (simp add: embeddings_rejected_def l)
    from add_documents_accepts[OF _ _ this, of ts fk env ms dk] h l
    show "\<exists>s' dk'. add_documents fk env ts es ms (?s, dk) = (Inr (), s', dk') \<and>
               texts s' = ts \<and> metadatas s' = ms \<and> stored_vectors s' = map (normalize_row fk) es"
      by auto
  qed
  from l g n r a show ?thesis by blast
qed

theorem metadata_without_index_witness:
  "texts (VectorStore_init 768
      \<lparr>index_file = Absent,
        metadata_file = Stored \<lparr>pk_texts = Some [''old text''],
          pk_metadatas = Some [[(''source'', ''old.txt'')]], pk_dimension = Some 3\<rparr>\<rparr>
      :: (real, (string \<times> string) list) VectorStore) = [''old text''] \<and>
   metadatas (VectorStore_init 768
      \<lparr>index_file = Absent,
        metadata_file = Stored \<lparr>pk_texts = Some [''old text''],
          pk_metadatas = Some [[(''source'', ''old.txt'')]], pk_dimension = Some 3\<rparr>\<rparr>
      :: (real, (string \<times> string) list) VectorStore) = [[(''source'', ''old.txt'')]] \<and>
   get_stats (VectorStore_init 768
      \<lparr>index_file = Absent,
        metadata_file = Stored \<lparr>pk_texts = Some [''old text''],
          pk_metadatas = Some [[(''source'', ''old.txt'')]], pk_dimension = Some 3\<rparr>\<rparr>
      :: (real, (string \<times> string) list) VectorStore) =
     \<lparr>total_documents = 1, vector_dimensions = 0, index_size = 0\<rparr> \<and>
   texts (fst (snd (add_documents exact_kernels all_written [''new text''] [] [[(''source'', ''new.txt'')]]
       (VectorStore_init 768
          \<lparr>index_file = Absent,
            metadata_file = Stored \<lparr>pk_texts = Some [''old text''],
              pk_metadatas = Some [[(''source'', ''old.txt'')]], pk_dimension = Some 3\<rparr>\<rparr>,
        \<lparr>index_file = Absent,
            metadata_file = Stored \<lparr>pk_texts = Some [''old text''],
              pk_metadatas = Some [[(''source'', ''old.txt'')]], pk_dimension = Some 3\<rparr>\<rparr>)))) =
     [''old text''] \<and>
   fst (add_documents exact_kernels all_written [''new text''] [[1, 0], [1]] [[(''source'', ''new.txt'')]]
       (VectorStore_init 768
          \<lparr>index_file = Absent,
            metadata_file = Stored \<lparr>pk_texts = Some [''old text''],
              pk_metadatas = Some [[(''source'', ''old.txt'')]], pk_dimension = Some 3\<rparr>\<rparr>,
        \<lparr>index_file = Absent,
            metadata_file = Stored \<lparr>pk_texts = Some [''old text''],
              pk_metadatas = Some [[(''source'', ''old.txt'')]], pk_dimension = Some 3\<rparr>\<rparr>)) =
     Inl (Error_adding_documents ValueError) \<and>
   (\<exists>s' dk'. add_documents exact_kernels all_written [''new text''] [[1, 0]] [[(''source'', ''new.txt'')]]
       (VectorStore_init 768
          \<lparr>index_file = Absent,
            metadata_file = Stored \<lparr>pk_texts = Some [''old text''],
              pk_metadatas = Some [[(''source'', ''old.txt'')]], pk_dimension = Some 3\<rparr>\<rparr>,
        \<lparr>index_file = Absent,
            metadata_file = Stored \<lparr>pk_texts = Some [''old text''],
              pk_metadatas = Some [[(''source'', ''old.txt'')]], pk_dimension = Some 3\<rparr>\<rparr>) =
       (Inr (), s', dk') \<and> texts s' = [''new text''] \<and> metadatas s' = [[(''source'', ''new.txt'')]])"
proof -
  let ?data = "\<lparr>pk_texts = Some [''old text''],
          pk_metadatas = Some [[(''source'', ''old.txt'')]], pk_dimension = Some 3\<rparr>"
  let ?dk = "\<lparr>index_file = Absent, metadata_file = Stored ?data\<rparr>
      :: (real, (string \<times> string) list) disk"
  let ?s = "VectorStore_init 768 ?dk"
  let ?ms = "[[(''source'', ''new.txt'')]]"
  have h: "index_file ?dk = Absent" "metadata_file ?dk = Stored ?data"
    "pk_texts ?data = Some [''old text'']" "[''old text''] \<noteq> []"
    by simp_all
  have n: "np_array [[1, 0 :: real]] = Inr \<lparr>ncols = 2, rows = [[1, 0]]\<rparr>"
    by (simp add: np_array_def)
  have v: "np_array [[1, 0 :: real], [1]] = Inl ValueError"
    by (simp add: np_array_def)
  note good = metadata_without_index[OF h, where dm = 768 and ts = "[''new text'']" and es = "[[1, 0]]"
      and x = "\<lparr>ncols = 2, rows = [[1, 0]]\<rparr>" and fk = exact_kernels and env = all_written
      and ms = ?ms]
  note noop = metadata_without_index[OF h, where dm = 768 and ts = "[''new text'']" and es = "[]"
      and fk = exact_kernels and env = all_written and ms = ?ms]
  note ragged = metadata_without_index[OF h, where dm = 768 and ts = "[''new text'']"
      and es = "[[1, 0], [1]]" and ex = ValueError and fk = exact_kernels and env = all_written
      and ms = ?ms]
  have t: "texts ?s = [''old text'']" using good by blast
  have m: "metadatas ?s = [[(''source'', ''old.txt'')]]" using good by simp
  have st: "get_stats ?s = \<lparr>total_documents = 1, vector_dimensions = 0, index_size = 0\<rparr>"
    using good by (simp add: get_stats_def)
  have c1: "add_documents exact_kernels all_written [''new text''] [] ?ms (?s, ?dk) = (Inr (), ?s, ?dk)"
    using noop by blast
  have c1': "texts (fst (snd (add_documents exact_kernels all_written [''new text''] [] ?ms (?s, ?dk)))) =
       [''old text'']"
    by (simp only: c1 fst_conv snd_conv t)
  have c2: "add_documents exact_kernels all_written [''new text''] [[1, 0], [1]] ?ms (?s, ?dk) =
       (Inl (Error_adding_documents ValueError), ?s, ?dk)"
    using ragged v by blast
  have c2': "fst (add_documents exact_kernels all_written [''new text''] [[1, 0], [1]] ?ms (?s, ?dk)) =
       Inl (Error_adding_documents ValueError)"
    by (simp only: c2 fst_conv)
  have c3: "\<exists>s' dk'. add_documents exact_kernels all_written [''new text''] [[1, 0]] ?ms (?s, ?dk) =
       (Inr (), s', dk') \<and> texts s' = [''new text''] \<and> metadatas s' = ?ms"
    using good n by blast
  show ?thesis by (intro conjI t m st c1' c2' c3)
qed

text \<open>
  The loaded metadatas can be empty beside non-empty texts: \<open>add_documents\<close> with one
  text, one embedding and no metadata writes such an artifact. And the first call made on
  the loaded store need not discard anything: with no texts it returns, and with ragged
  embeddings it raises, the loaded text still in place.
\<close>

theorem metadata_without_index_counterexample:
  "metadata_file (snd (snd (add_documents exact_kernels all_written [''old text''] [[1, 0]]
       ([] :: (string \<times> string) list list) (VectorStore_init 768 no_snapshot, no_snapshot)))) =
     Stored \<lparr>pk_texts = Some [''old text''], pk_metadatas = Some [], pk_dimension = Some 2\<rparr> \<and>
   texts (VectorStore_init 768
      \<lparr>index_file = Absent,
        metadata_file = Stored \<lparr>pk_texts = Some [''old text''], pk_metadatas = Some [],
          pk_dimension = Some 2\<rparr>\<rparr>
      :: (real, (string \<times> string) list) VectorStore) = [''old text''] \<and>
   metadatas (VectorStore_init 768
      \<lparr>index_file = Absent,
        metadata_file = Stored \<lparr>pk_texts = Some [''old text''], pk_metadatas = Some [],
          pk_dimension = Some 2\<rparr>\<rparr>
      :: (real, (string \<times> string) list) VectorStore) = [] \<and>
   texts (fst (snd (add_documents exact_kernels all_written [] [[1, 0]] [[(''source'', ''new.txt'')]]
       (VectorStore_init 768
          \<lparr>index_file = Absent,
            metadata_file = Stored \<lparr>pk_texts = Some [''old text''], pk_metadatas = Some [],
              pk_dimension = Some 2\<rparr>\<rparr>,
        \<lparr>index_file = Absent,
          metadata_file = Stored \<lparr>pk_texts = Some [''old text''], pk_metadatas = Some [],
            pk_dimension = Some 2\<rparr>\<rparr>)))) = [''old text''] \<and>
   add_documents exact_kernels all_written [''new text''] [[1, 0], [1]] [[(''source'', ''new.txt'')]]
       (VectorStore_init 768
          \<lparr>index_file = Absent,
            metadata_file = Stored \<lparr>pk_texts = Some [''old text''], pk_metadatas = Some [],
              pk_dimension = Some 2\<rparr>\<rparr>,
        \<lparr>index_file = Absent,
          metadata_file = Stored \<lparr>pk_texts = Some [''old text''], pk_metadatas = Some [],
            pk_dimension = Some 2\<rparr>\<rparr>) =
     (Inl (Error_adding_documents ValueError),
      \<lparr>dimension = 2, index = None, texts = [''old text''], metadatas = []\<rparr>,
      \<lparr>index_file = Absent,
        metadata_file = Stored \<lparr>pk_texts = Some [''old text''], pk_metadatas = Some [],
          pk_dimension = Some 2\<rparr>\<rparr>)"
  by (simp add: add_documents_def VectorStore_init_def load_index_def no_snapshot_def
      all_written_def np_array_def save_index_def write_file_def index_add_def
      IndexFlatIP_new_def normalize_L2_def Let_def)

subsection \<open>Ranked search\<close>

lemma py_get_valid:
  assumes "- int (length xs) \<le> idx" "idx < int (length xs)"
  shows "py_get xs idx = Inr (xs ! py_position (length xs) idx)"
  using assms by (auto simp: py_get_def py_position_def)

lemma py_position_filler: "xs \<noteq> [] \<Longrightarrow> xs ! py_position (length xs) (- 1) = last xs"
proof -
  assume "xs \<noteq> []"
  then have "py_position (length xs) (- 1) = length xs - 1"
    by (cases xs) (simp_all add: py_position_def)
  with \<open>xs \<noteq> []\<close> show ?thesis by (simp add: last_conv_nth)
qed

lemma collect_results_valid:
  assumes "length (metadatas s) = length (texts s)"
    and "\<forall>(sc, idx) \<in> set hits. - int (length (texts s)) \<le> idx \<and> idx < int (length (texts s))"
  shows "collect_results s i hits acc = Inr (acc @ map (hit_result s) (enumerate i hits))"
  using assms(2)
proof (induction hits arbitrary: i acc)
  case Nil
  then show ?case by simp
next
  case (Cons h hits)
  obtain sc idx where h: "h = (sc, idx)" by (cases h)
  with Cons.prems have v: "- int (length (texts s)) \<le> idx" "idx < int (length (texts s))"
    by auto
  from Cons.prems
  have r: "\<forall>(sc, idx) \<in> set hits. - int (length (texts s)) \<le> idx \<and> idx < int (length (texts s))"
    by simp
  have t: "py_get (texts s) idx = Inr (texts s ! py_position (length (texts s)) idx)"
    using v by (rule py_get_valid)
  have m: "py_get (metadatas s) idx = Inr (metadatas s ! py_position (length (metadatas s)) idx)"
    using v assms(1) by (intro py_get_valid) simp_all
  show ?case using v h t m Cons.IH[OF r]
    by (simp add: hit_result_def)
qed

lemma ranks_upto: "map (\<lambda>j. int j + 1) [i..<i + n] = [int i + 1..int i + int n]"
proof (induction n)
  case 0
  then show ?case by simp
next
  case (Suc n)
  have "[int i + 1..int i + int (Suc n)] = [int i + 1..int i + int n] @ [int i + int n + 1]"
    using upto_rec2[of "int i + 1" "int i + int n + 1"] by (simp add: add.commute add.left_commute)
  with Suc show ?case by (simp add: add.assoc)
qed

lemma map_rank_hit_result:
  "map r_rank (map (hit_result s) (enumerate i hits)) = [int i + 1..int i + int (length hits)]"
proof -
  have "map r_rank (map (hit_result s) (enumerate i hits)) =
          map (\<lambda>x. int (fst x) + 1) (enumerate i hits)"
    by (simp add: hit_result_def case_prod_unfold o_def)
  also have "\<dots> = map (\<lambda>j. int j + 1) (map fst (enumerate i hits))"
    by (simp only: map_map o_def)
  also have "\<dots> = map (\<lambda>j. int j + 1) [i..<i + length hits]"
    by (simp only: map_fst_enumerate)
  finally show ?thesis by (simp only: ranks_upto)
qed

lemma map_score_hit_result:
  "map r_score (map (hit_result s) (enumerate i hits)) = map fst hits"
proof -
  have "map r_score (map (hit_result s) (enumerate i hits)) =
          map (\<lambda>x. fst (snd x)) (enumerate i hits)"
    by (simp add: hit_result_def case_prod_unfold o_def)
  also have "\<dots> = map fst (map snd (enumerate i hits))"
    by (simp only: map_map o_def)
  finally show ?thesis by (simp only: map_snd_enumerate)
qed

lemma in_set_map_filter: "y \<in> set (List.map_filter f xs) \<longleftrightarrow> (\<exists>x \<in> set xs. f x = Some y)"
  by (induction xs) (auto split: option.splits)

lemma length_map_filter_all:
  "\<forall>x \<in> set xs. f x \<noteq> None \<Longrightarrow> length (List.map_filter f xs) = length xs"
  by (induction xs) (auto split: option.splits)

lemma heap_candidates_set:
  "(sc, idx) \<in> set (heap_candidates fk ix q) \<Longrightarrow>
     0 \<le> idx \<and> idx < int (ntotal ix) \<and>
     inner_product fk (index_vectors ix ! nat idx) q = Some sc \<and> no_result_score fk < sc"
  by (auto simp: heap_candidates_def ntotal_def in_set_map_filter in_set_enumerate_eq
      split: option.splits if_splits)

lemma heap_candidates_all:
  assumes "\<forall>v \<in> set (index_vectors ix). \<exists>sc. inner_product fk v q = Some sc \<and> no_result_score fk < sc"
  shows "length (heap_candidates fk ix q) = ntotal ix"
proof -
  have "\<forall>x \<in> set (enumerate 0 (index_vectors ix)).
          (case x of (i, v) \<Rightarrow>
             case inner_product fk v q of None \<Rightarrow> None
             | Some sc \<Rightarrow> if no_result_score fk < sc then Some (sc, int i) else None) \<noteq> None"
  proof
    fix x assume x: "x \<in> set (enumerate 0 (index_vectors ix))"
    obtain i v where iv: "x = (i, v)" by (cases x)
    with x have "v \<in> set (index_vectors ix)" by (auto simp: in_set_enumerate_eq)
    with assms obtain sc where "inner_product fk v q = Some sc" "no_result_score fk < sc" by blast
    with iv show "(case x of (i, v) \<Rightarrow>
             case inner_product fk v q of None \<Rightarrow> None
             | Some sc \<Rightarrow> if no_result_score fk < sc then Some (sc, int i) else None) \<noteq> None"
      by simp
  qed
  from length_map_filter_all[OF this] show ?thesis
    by (simp add: heap_candidates_def ntotal_def)
qed

lemma search_row_props:
  fixes fk :: "('a, 's::linorder) faiss"
  shows "length (search_row fk ix k q) = k"
    and "sorted_wrt (\<ge>) (map fst (search_row fk ix k q))"
    and "set (search_row fk ix k q) \<subseteq> insert (no_result_score fk, - 1) (set (heap_candidates fk ix q))"
    and "k \<le> length (heap_candidates fk ix q) \<Longrightarrow>
           set (search_row fk ix k q) \<subseteq> set (heap_candidates fk ix q)"
proof -
  let ?c = "heap_candidates fk ix q"
  let ?srt = "rev (sort_key fst (rev ?c))"
  let ?best = "take k ?srt"
  let ?pad = "replicate (k - length ?best) (no_result_score fk, - 1 :: int)"
  have sr: "search_row fk ix k q = ?best @ ?pad"
    by (simp add: search_row_def Let_def)
  show "length (search_row fk ix k q) = k" unfolding sr by simp
  have "sorted (map fst (sort_key fst (rev ?c)))" by (rule sorted_sort_key)
  then have "sorted_wrt (\<ge>) (rev (map fst (sort_key fst (rev ?c))))"
    by (simp add: sorted_wrt_rev)
  then have "sorted_wrt (\<ge>) (map fst ?srt)" by (simp add: rev_map)
  then have "sorted_wrt (\<ge>) (take k (map fst ?srt))" by (rule sorted_wrt_take)
  then have b: "sorted_wrt (\<ge>) (map fst ?best)" by (simp add: take_map)
  have sub: "set ?best \<subseteq> set ?c"
  proof -
    have "set ?best \<subseteq> set ?srt" by (rule set_take_subset)
    then show ?thesis by simp
  qed
  have above: "\<forall>x \<in> set ?best. no_result_score fk \<le> fst x"
  proof
    fix x assume "x \<in> set ?best"
    with sub have "(fst x, snd x) \<in> set ?c" by auto
    from heap_candidates_set[OF this] show "no_result_score fk \<le> fst x" by (simp add: less_imp_le)
  qed
  have p: "sorted_wrt (\<ge>) (map fst ?pad)" by (simp add: sorted_wrt_iff_nth_less)
  have "sorted_wrt (\<ge>) (map fst ?best @ map fst ?pad)"
    using b p above by (simp only: sorted_wrt_append) auto
  then show "sorted_wrt (\<ge>) (map fst (search_row fk ix k q))" unfolding sr by simp
  show "set (search_row fk ix k q) \<subseteq> insert (no_result_score fk, - 1) (set ?c)"
    unfolding sr using sub by auto
  assume "k \<le> length ?c"
  then have "length ?best = k" by simp
  then have "?pad = []" by simp
  then show "set (search_row fk ix k q) \<subseteq> set ?c" unfolding sr using sub by simp
qed

lemma similarity_search_unfold:
  fixes fk :: "('a, 's::linorder) faiss"
  assumes "index s = Some ix" "texts s \<noteq> []" "length q = index_d ix" "1 \<le> k"
  shows "similarity_search fk q k s =
           (case collect_results s 0
                   (search_row fk ix (min (nat k) (length (texts s))) (normalize_row fk q)) [] of
              Inl ex \<Rightarrow> Inl (Error_during_similarity_search ex)
            | Inr results \<Rightarrow> Inr results)"
proof -
  have n: "0 < length (texts s)" using assms(2) by simp
  then have k': "\<not> min k (int (length (texts s))) \<le> 0" using assms(4) by (simp add: min_def)
  have nk: "nat (min k (int (length (texts s)))) = min (nat k) (length (texts s))"
    using assms(4) by (auto simp: min_def)
  show ?thesis
    using assms(1,2,3) k'
    by (simp add: similarity_search_def np_array_def normalize_L2_def index_search_def nk)
qed

lemma similarity_search_raises:
  fixes fk :: "('a, 's::linorder) faiss"
  assumes "index s = Some ix" "texts s \<noteq> []" "length q \<noteq> index_d ix \<or> k \<le> 0"
  shows "similarity_search fk q k s = Inl (Error_during_similarity_search AssertionError)"
proof -
  have "min k (int (length (texts s))) \<le> 0" if "k \<le> 0" using that by simp
  with assms show ?thesis
    by (auto simp: similarity_search_def np_array_def normalize_L2_def index_search_def)
qed

text \<open>
  Claim C3, as amended. On a store without an index or without texts
  \<open>similarity_search\<close> returns the empty list, for every query and every \<open>k\<close>. On
  a store with an index and a text, a query whose width is not the dimension of the index,
  or a \<open>k \<le> 0\<close>, raises the wrapped assertion error. On a position-consistent store
  holding \<open>n\<close> entries, for every query whose width is the dimension of the index and
  every \<open>k \<ge> 1\<close>, it returns exactly \<open>min(k, n)\<close> results, with ranks
  \<open>1, 2, ...\<close> in order and scores that never increase. Each result carries the text
  and the metadata of the position whose vector gave its score, or, for a slot FAISS
  could not fill (position \<open>-1\<close>), the filler score with the last text and the last
  metadata; no slot is left unfilled when the score of every vector is a number above the
  filler score.
\<close>

theorem similarity_search_ranked:
  fixes fk :: "('a, 's::linorder) faiss"
  shows "(index s = None \<or> texts s = [] \<longrightarrow> similarity_search fk q k s = Inr []) \<and>
   (index s = Some ix \<and> texts s \<noteq> [] \<and> (length q \<noteq> index_d ix \<or> k \<le> 0) \<longrightarrow>
      similarity_search fk q k s = Inl (Error_during_similarity_search AssertionError)) \<and>
   (position_consistent s \<and> index s = Some ix \<and> length q = index_d ix \<and> 1 \<le> k \<longrightarrow>
     (\<exists>rs. similarity_search fk q k s = Inr rs \<and>
           length rs = min (nat k) (length (texts s)) \<and>
           map r_rank rs = [1..int (length rs)] \<and>
           sorted_wrt (\<ge>) (map r_score rs) \<and>
           (\<forall>r \<in> set rs.
               (\<exists>p < length (texts s).
                   r_text r = texts s ! p \<and> r_metadata r = metadatas s ! p \<and>
                   inner_product fk (index_vectors ix ! p) (normalize_row fk q) = Some (r_score r)) \<or>
               (r_score r = no_result_score fk \<and> r_text r = last (texts s) \<and>
                r_metadata r = last (metadatas s))) \<and>
           ((\<forall>v \<in> set (index_vectors ix).
                \<exists>sc. inner_product fk v (normalize_row fk q) = Some sc \<and> no_result_score fk < sc) \<longrightarrow>
            (\<forall>r \<in> set rs. \<exists>p < length (texts s).
                   r_text r = texts s ! p \<and> r_metadata r = metadatas s ! p \<and>
                   inner_product fk (index_vectors ix ! p) (normalize_row fk q) = Some (r_score r)))))"
proof (intro conjI impI)
  assume "index s = None \<or> texts s = []"
  then show "similarity_search fk q k s = Inr []"
    by (auto simp: similarity_search_def split: option.splits)
next
  assume "index s = Some ix \<and> texts s \<noteq> [] \<and> (length q \<noteq> index_d ix \<or> k \<le> 0)"
  then show "similarity_search fk q k s = Inl (Error_during_similarity_search AssertionError)"
    using similarity_search_raises[of s ix q k fk] by blast
next
  assume a: "position_consistent s \<and> index s = Some ix \<and> length q = index_d ix \<and> 1 \<le> k"
  let ?n = "length (texts s)"
  let ?nq = "normalize_row fk q"
  let ?hits = "search_row fk ix (min (nat k) ?n) ?nq"
  let ?rs = "map (hit_result s) (enumerate 0 ?hits)"
  let ?genuine = "\<lambda>r. \<exists>p < ?n. r_text r = texts s ! p \<and> r_metadata r = metadatas s ! p \<and>
                   inner_product fk (index_vectors ix ! p) ?nq = Some (r_score r)"
  let ?filler = "\<lambda>r. r_score r = no_result_score fk \<and> r_text r = last (texts s) \<and>
                r_metadata r = last (metadatas s)"
  from a have c: "length (metadatas s) = ?n" "ntotal ix = ?n"
    by (auto simp: position_consistent_def get_stats_def)
  show "\<exists>rs. similarity_search fk q k s = Inr rs \<and>
           length rs = min (nat k) ?n \<and>
           map r_rank rs = [1..int (length rs)] \<and>
           sorted_wrt (\<ge>) (map r_score rs) \<and>
           (\<forall>r \<in> set rs. ?genuine r \<or> ?filler r) \<and>
           ((\<forall>v \<in> set (index_vectors ix).
                \<exists>sc. inner_product fk v ?nq = Some sc \<and> no_result_score fk < sc) \<longrightarrow>
            (\<forall>r \<in> set rs. ?genuine r))"
  proof (cases "texts s = []")
    case True
    with a have "similarity_search fk q k s = Inr []"
      by (simp add: similarity_search_def)
    with True show ?thesis by simp
  next
    case False
    then have m: "metadatas s \<noteq> []" using c(1) by auto
    note sr = search_row_props[where fk = fk and ix = ix and k = "min (nat k) ?n" and q = ?nq]
    have genuine: "?genuine (hit_result s (j, (sc, idx)))"
      if "(sc, idx) \<in> set (heap_candidates fk ix ?nq)" for j sc idx
    proof -
      from heap_candidates_set[OF that] c
      have i: "0 \<le> idx" "nat idx < ?n" "inner_product fk (index_vectors ix ! nat idx) ?nq = Some sc"
        by auto
      have "py_position ?n idx = nat idx" "py_position (length (metadatas s)) idx = nat idx"
        using i(1) by (simp_all add: py_position_def)
      with i show ?thesis by (auto simp: hit_result_def)
    qed
    have filler: "?filler (hit_result s (j, (no_result_score fk, - 1)))" for j
      using False m by (simp add: hit_result_def py_position_filler)
    have valid: "\<forall>(sc, idx) \<in> set ?hits. - int ?n \<le> idx \<and> idx < int ?n"
    proof (intro ballI, clarify)
      fix sc idx assume "(sc, idx) \<in> set ?hits"
      with sr(3) have "(sc, idx) = (no_result_score fk, - 1) \<or> (sc, idx) \<in> set (heap_candidates fk ix ?nq)"
        by auto
      then show "- int ?n \<le> idx \<and> idx < int ?n"
      proof
        assume "(sc, idx) = (no_result_score fk, - 1)"
        with False show ?thesis by (cases "texts s") simp_all
      next
        assume "(sc, idx) \<in> set (heap_candidates fk ix ?nq)"
        from heap_candidates_set[OF this] c show ?thesis by simp
      qed
    qed
    have cr: "collect_results s 0 ?hits [] = Inr ?rs"
      using collect_results_valid[OF c(1) valid, of 0 "[]"] by simp
    have ss: "similarity_search fk q k s = Inr ?rs"
      using similarity_search_unfold[of s ix q k fk] a False cr by simp
    have l: "length ?rs = min (nat k) ?n" using sr(1) by simp
    have rk: "map r_rank ?rs = [1..int (length ?rs)]"
      using map_rank_hit_result[of s 0 ?hits] by simp
    have sc: "sorted_wrt (\<ge>) (map r_score ?rs)"
      using sr(2) by (simp only: map_score_hit_result)
    have members: "\<exists>j sc idx. r = hit_result s (j, (sc, idx)) \<and> (sc, idx) \<in> set ?hits"
      if "r \<in> set ?rs" for r
    proof -
      from that obtain e where e: "e \<in> set (enumerate 0 ?hits)" "r = hit_result s e" by auto
      obtain j sc idx where ej: "e = (j, (sc, idx))" by (metis prod_cases3)
      with e(1) have "j < length ?hits" "(sc, idx) = ?hits ! j"
        by (simp_all add: in_set_enumerate_eq)
      then have "(sc, idx) \<in> set ?hits" by (metis nth_mem)
      with e(2) ej show ?thesis by blast
    qed
    have el: "\<forall>r \<in> set ?rs. ?genuine r \<or> ?filler r"
    proof
      fix r assume "r \<in> set ?rs"
      from members[OF this] obtain j sc idx where
        r: "r = hit_result s (j, (sc, idx))" and h: "(sc, idx) \<in> set ?hits" by blast
      from h sr(3) have "(sc, idx) = (no_result_score fk, - 1) \<or> (sc, idx) \<in> set (heap_candidates fk ix ?nq)"
        by auto
      then show "?genuine r \<or> ?filler r"
      proof
        assume "(sc, idx) = (no_result_score fk, - 1)"
        with r filler[of j] show ?thesis by simp
      next
        assume "(sc, idx) \<in> set (heap_candidates fk ix ?nq)"
        from genuine[OF this, of j] r show ?thesis by simp
      qed
    qed
    have full: "\<forall>r \<in> set ?rs. ?genuine r"
      if all: "\<forall>v \<in> set (index_vectors ix). \<exists>sc. inner_product fk v ?nq = Some sc \<and> no_result_score fk < sc"
    proof
      fix r assume "r \<in> set ?rs"
      from members[OF this] obtain j sc idx where
        r: "r = hit_result s (j, (sc, idx))" and h: "(sc, idx) \<in> set ?hits" by blast
      have "min (nat k) ?n \<le> length (heap_candidates fk ix ?nq)"
        using heap_candidates_all[OF all] c(2) by simp
      from sr(4)[OF this] h have "(sc, idx) \<in> set (heap_candidates fk ix ?nq)" by auto
      from genuine[OF this, of j] r show "?genuine r" by simp
    qed
    from ss l rk sc el full show ?thesis by blast
  qed
qed

lemma search_row_tie:
  "search_row exact_kernels \<lparr>index_d = 2, index_vectors = [[1, 0], [1, 0]]\<rparr> 2 [1, 0] =
     [(1, 0), (1, 1)]"
  by (simp add: search_row_def heap_candidates_def exact_kernels_def)

lemma two_documents_search:
  "similarity_search exact_kernels [1, 0] 5 two_documents =
     Inr [\<lparr>r_text = ''right'', r_metadata = [(''source'', ''b.txt'')], r_score = 1, r_rank = 1\<rparr>,
          \<lparr>r_text = ''up'', r_metadata = [(''source'', ''a.txt'')], r_score = 0, r_rank = 2\<rparr>]"
  by (simp add: similarity_search_def two_documents_def np_array_def normalize_L2_def
      index_search_def search_row_def heap_candidates_def exact_kernels_def py_get_def)

theorem similarity_search_ranked_witness:
  "position_consistent two_documents \<and>
   index two_documents = Some \<lparr>index_d = 2, index_vectors = [[0, 1], [1, 0]]\<rparr> \<and>
   length [1, 0 :: real] = index_d \<lparr>index_d = 2, index_vectors = [[0, 1], [1, 0 :: real]]\<rparr> \<and>
   (1 :: int) \<le> 5 \<and>
   (\<exists>rs. similarity_search exact_kernels [1, 0] 5 two_documents = Inr rs \<and> length rs = 2 \<and>
         map r_rank rs = [1, 2] \<and> sorted_wrt (\<ge>) (map r_score rs)) \<and>
   similarity_search exact_kernels [1, 0] 5
     (VectorStore_init 768 no_snapshot :: (real, (string \<times> string) list) VectorStore) = Inr [] \<and>
   texts two_documents \<noteq> [] \<and> (0 :: int) \<le> 0 \<and>
   similarity_search exact_kernels [1, 0] 0 two_documents =
     Inl (Error_during_similarity_search AssertionError)"
proof -
  let ?ix = "\<lparr>index_d = 2, index_vectors = [[0, 1], [1, 0 :: real]]\<rparr>"
  let ?e = "VectorStore_init 768 no_snapshot :: (real, (string \<times> string) list) VectorStore"
  have h1: "position_consistent two_documents"
    by (simp add: position_consistent_def get_stats_def two_documents_def ntotal_def)
  have h2: "index two_documents = Some ?ix" by (simp add: two_documents_def)
  have h3: "length [1, 0 :: real] = index_d ?ix" by simp
  have h4: "(1 :: int) \<le> 5" by simp
  have h5: "texts two_documents \<noteq> []" by (simp add: two_documents_def)
  have h6: "(0 :: int) \<le> 0" by simp
  have t: "min (nat 5) (length (texts two_documents)) = 2" by (simp add: two_documents_def)
  have e: "index ?e = None \<or> texts ?e = []"
    by (simp add: VectorStore_init_def load_index_def no_snapshot_def)
  note th = similarity_search_ranked[where s = two_documents and fk = exact_kernels
      and q = "[1, 0]" and k = 5 and ix = ?ix]
  note th3 = mp[OF conjunct2[OF conjunct2[OF th]]]
  have "position_consistent two_documents \<and> index two_documents = Some ?ix \<and>
        length [1, 0 :: real] = index_d ?ix \<and> (1 :: int) \<le> 5"
    by (intro conjI h1 h2 h3 h4)
  from th3[OF this] obtain rs where rs: "similarity_search exact_kernels [1, 0] 5 two_documents = Inr rs"
    "length rs = min (nat 5) (length (texts two_documents))"
    "map r_rank rs = [1..int (length rs)]" "sorted_wrt (\<ge>) (map r_score rs)"
    by blast
  have l: "length rs = 2" using rs(2) unfolding t .
  have u: "[1..2::int] = [1, 2]" by (simp add: upto.simps)
  have "map r_rank rs = [1..int 2]" using rs(3) unfolding l .
  then have rk: "map r_rank rs = [1, 2]" by (simp only: of_nat_numeral u)
  have 1: "\<exists>rs. similarity_search exact_kernels [1, 0] 5 two_documents = Inr rs \<and> length rs = 2 \<and>
         map r_rank rs = [1, 2] \<and> sorted_wrt (\<ge>) (map r_score rs)"
    using rs(1) l rk rs(4) by (intro exI[of _ rs] conjI)
  have 2: "similarity_search exact_kernels [1, 0] 5 ?e = Inr []"
    by (rule mp[OF conjunct1[OF similarity_search_ranked[where s = ?e and fk = exact_kernels
        and q = "[1, 0]" and k = 5]] e])
  have "index two_documents = Some ?ix \<and> texts two_documents \<noteq> [] \<and>
        (length [1, 0 :: real] \<noteq> index_d ?ix \<or> (0 :: int) \<le> 0)"
    using h2 h5 by simp
  from mp[OF conjunct1[OF conjunct2[OF similarity_search_ranked[where s = two_documents
        and fk = exact_kernels and q = "[1, 0]" and k = 0 and ix = ?ix]]] this]
  have 3: "similarity_search exact_kernels [1, 0] 0 two_documents =
     Inl (Error_during_similarity_search AssertionError)" .
  show ?thesis by (intro conjI h1 h2 h3 h4 h5 h6 1 2 3)
qed

text \<open>
  A query of width 3 against an index of dimension 2, and \<open>k = 0\<close> with a query of the
  right width: the assertions of the FAISS search fail and the calls raise the wrapped
  error, where the claim promises one result and no result.
\<close>

theorem similarity_search_counterexample:
  "similarity_search exact_kernels [1, 0, 0] 5 two_documents =
     Inl (Error_during_similarity_search AssertionError) \<and>
   similarity_search exact_kernels [1, 0] 0 two_documents =
     Inl (Error_during_similarity_search AssertionError)"
  by (simp add: similarity_search_def two_documents_def np_array_def normalize_L2_def
      index_search_def)

section \<open>Properties of the chunker\<close>

subsection \<open>Matches, slices and the cut of a window\<close>

lemma finditer_punct_bounds:
  "e \<in> set (finditer_punct p i w) \<Longrightarrow> i + 2 \<le> e \<and> e \<le> i + length w"
proof (induction p i w rule: finditer_punct.induct)
  case (1 p i)
  then show ?case by simp
next
  case (2 p i c cs)
  show ?case
  proof (cases "c = p \<and> takeWhile isspace cs \<noteq> []")
    case True
    let ?n = "length (takeWhile isspace cs)"
    have n: "1 \<le> ?n" "?n \<le> length cs"
      using True by (cases "takeWhile isspace cs", simp_all add: length_takeWhile_le)
    have l: "length (dropWhile isspace cs) = length cs - ?n"
      by (simp add: dropWhile_eq_drop)
    from "2.prems" True
    have "e = i + 1 + ?n \<or> e \<in> set (finditer_punct p (i + 1 + ?n) (dropWhile isspace cs))"
      by (simp add: Let_def)
    then show ?thesis
    proof
      assume "e = i + 1 + ?n"
      with n show ?thesis by simp
    next
      assume "e \<in> set (finditer_punct p (i + 1 + ?n) (dropWhile isspace cs))"
      from "2.IH"(1)[OF True refl this] l n show ?thesis by simp
    qed
  next
    case False
    with "2.prems" have "e \<in> set (finditer_punct p (Suc i) cs)" by (simp split: if_splits)
    from "2.IH"(2)[OF False this] show ?thesis by simp
  qed
qed

lemma finditer_blank_bounds:
  "e \<in> set (finditer_blank i w) \<Longrightarrow> i + 2 \<le> e \<and> e \<le> i + length w"
  by (induction i w rule: finditer_blank.induct) (auto split: if_splits)

lemma py_slice_nonneg:
  assumes "0 \<le> a" "0 \<le> b"
  shows "py_slice xs a b = take (nat (min b (int (length xs))) - nat a) (drop (nat a) xs)"
proof (cases "a \<le> int (length xs)")
  case True
  with assms show ?thesis by (simp add: py_slice_def Let_def min_def nat_diff_distrib')
next
  case False
  with assms show ?thesis by (simp add: py_slice_def Let_def min_def)
qed

lemma length_py_slice_le:
  assumes "0 \<le> a" "0 \<le> b"
  shows "int (length (py_slice xs a b)) \<le> b - a \<or> py_slice xs a b = []"
  using assms by (auto simp: py_slice_nonneg min_def)

lemma sentence_breaks_bounds:
  assumes "0 \<le> ss" "ss \<le> e0" "b \<in> set (sentence_breaks text ss e0)"
  shows "ss + 2 \<le> b \<and> b \<le> e0 \<and> b \<le> int (length text)"
proof -
  let ?w = "py_slice text ss e0"
  from assms(3) obtain n where n: "b = ss + int n"
    "n \<in> set (finditer_punct (CHR ''.'') 0 ?w) \<or> n \<in> set (finditer_punct (CHR ''!'') 0 ?w) \<or>
     n \<in> set (finditer_punct (CHR ''?'') 0 ?w) \<or> n \<in> set (finditer_blank 0 ?w)"
    by (auto simp: sentence_breaks_def Let_def)
  then have nb: "2 \<le> n" "n \<le> length ?w"
    using finditer_punct_bounds[of n _ 0 ?w] finditer_blank_bounds[of n 0 ?w]
    by (auto simp: numeral_2_eq_2)
  have e0: "0 \<le> e0" using assms by simp
  have w: "?w = take (nat (min e0 (int (length text))) - nat ss) (drop (nat ss) text)"
    using py_slice_nonneg[OF assms(1) e0] .
  have "length ?w \<le> nat (min e0 (int (length text))) - nat ss"
    by (simp add: w)
  with nb have "int n \<le> min e0 (int (length text)) - ss"
    using assms(1) e0 by linarith
  with nb n(1) show ?thesis by (auto simp: min_def split: if_splits)
qed

lemma window_end_bounds:
  assumes "1 \<le> m" "0 \<le> s"
  shows "s < window_end text m s \<and> window_end text m s \<le> s + m"
proof (cases "s + m < int (length text) \<and> sentence_breaks text (max (s + m - 200) s) (s + m) \<noteq> []")
  case True
  let ?ss = "max (s + m - 200) s"
  let ?bs = "sentence_breaks text ?ss (s + m)"
  from True have we: "window_end text m s = Max (set ?bs)"
    by (simp add: window_end_def Let_def)
  have "Max (set ?bs) \<in> set ?bs" using True by (intro Max_in) auto
  from sentence_breaks_bounds[OF _ _ this] assms
  have "?ss + 2 \<le> Max (set ?bs)" "Max (set ?bs) \<le> s + m" by auto
  with we show ?thesis by simp
next
  case False
  then have "window_end text m s = s + m"
    by (auto simp: window_end_def Let_def)
  with assms show ?thesis by simp
qed

lemma window_end_reaches_end:
  "int (length text) \<le> s + m \<Longrightarrow> window_end text m s = s + m"
  by (simp add: window_end_def Let_def)

subsection \<open>The loop and its windows\<close>

lemma chunk_windows_done: "\<not> start < int (length tx) \<Longrightarrow> chunk_windows tx m ov start = []"
  by (simp add: chunk_windows.simps)

lemma chunk_windows_step:
  "start < int (length tx) \<Longrightarrow>
   chunk_windows tx m ov start =
     (start, window_end tx m start) #
       chunk_windows tx m ov (max (window_end tx m start - ov) (start + 1))"
  by (subst chunk_windows.simps) (simp add: Let_def)

lemma chunk_loop_windows:
  "chunk_loop tx m ov start acc = acc @ window_chunks tx (chunk_windows tx m ov start)"
proof (induction tx m ov start acc rule: chunk_loop.induct)
  case (1 tx m ov start chunks)
  show ?case
  proof (cases "start < int (length tx)")
    case False
    then show ?thesis
      by (subst chunk_loop.simps) (simp add: chunk_windows_done window_chunks_def)
  next
    case True
    let ?e = "window_end tx m start"
    let ?chunk = "strip (py_slice tx start ?e)"
    let ?chunks' = "if ?chunk \<noteq> [] then chunks @ [?chunk] else chunks"
    let ?start' = "max (?e - ov) (start + 1)"
    have w: "chunk_windows tx m ov start = (start, ?e) # chunk_windows tx m ov ?start'"
      using True by (rule chunk_windows_step)
    show ?thesis
    proof (cases "?start' \<ge> int (length tx)")
      case True
      then have "\<not> ?start' < int (length tx)" by linarith
      then have "chunk_windows tx m ov ?start' = []" by (rule chunk_windows_done)
      with w have "window_chunks tx (chunk_windows tx m ov start) = (if ?chunk \<noteq> [] then [?chunk] else [])"
        by (simp add: window_chunks_def)
      moreover have "chunk_loop tx m ov start chunks = ?chunks'"
        using \<open>start < int (length tx)\<close> True by (subst chunk_loop.simps) (simp add: Let_def)
      ultimately show ?thesis by simp
    next
      case False
      have "chunk_loop tx m ov start chunks = chunk_loop tx m ov ?start' ?chunks'"
        using \<open>start < int (length tx)\<close> False by (subst chunk_loop.simps) (simp add: Let_def)
      also have "\<dots> = ?chunks' @ window_chunks tx (chunk_windows tx m ov ?start')"
        using "1.IH"[OF \<open>start < int (length tx)\<close> refl refl refl refl False] .
      also have "\<dots> = chunks @ window_chunks tx (chunk_windows tx m ov start)"
        by (simp add: w window_chunks_def)
      finally show ?thesis .
    qed
  qed
qed

lemma chunk_windows_starts:
  "(s, e) \<in> set (chunk_windows tx m ov start) \<Longrightarrow>
     start \<le> s \<and> s < int (length tx) \<and> e = window_end tx m s"
proof (induction tx m ov start rule: chunk_windows.induct)
  case (1 tx m ov start)
  show ?case
  proof (cases "start < int (length tx)")
    case False
    with "1.prems" show ?thesis by (simp add: chunk_windows_done)
  next
    case True
    let ?e = "window_end tx m start"
    let ?start' = "max (?e - ov) (start + 1)"
    have "set (chunk_windows tx m ov start) = insert (start, ?e) (set (chunk_windows tx m ov ?start'))"
      by (simp only: chunk_windows_step[OF True] list.set)
    with "1.prems"
    have "(s, e) = (start, ?e) \<or> (s, e) \<in> set (chunk_windows tx m ov ?start')"
      by blast
    then show ?thesis
    proof
      assume "(s, e) = (start, ?e)"
      with True show ?thesis by simp
    next
      assume "(s, e) \<in> set (chunk_windows tx m ov ?start')"
      from "1.IH"[OF True refl this]
      have "?start' \<le> s" "s < int (length tx)" "e = window_end tx m s" by blast+
      moreover have "start \<le> ?start'" by linarith
      ultimately show ?thesis by linarith
    qed
  qed
qed


lemma chunk_windows_advance:
  "sorted_wrt (<) (map fst (chunk_windows tx m ov start))"
proof (induction tx m ov start rule: chunk_windows.induct)
  case (1 tx m ov start)
  show ?case
  proof (cases "start < int (length tx)")
    case False
    then show ?thesis by (simp add: chunk_windows_done)
  next
    case True
    let ?e = "window_end tx m start"
    let ?start' = "max (?e - ov) (start + 1)"
    have lt: "\<forall>x \<in> set (map fst (chunk_windows tx m ov ?start')). start < x"
    proof
      fix x assume "x \<in> set (map fst (chunk_windows tx m ov ?start'))"
      then obtain e where "(x, e) \<in> set (chunk_windows tx m ov ?start')" by auto
      from chunk_windows_starts[OF this] have "?start' \<le> x" by blast
      then show "start < x" by linarith
    qed
    have "map fst (chunk_windows tx m ov start) = start # map fst (chunk_windows tx m ov ?start')"
      by (simp only: chunk_windows_step[OF True] list.map fst_conv)
    with lt "1.IH"[OF True refl] show ?thesis by simp
  qed
qed

lemma chunk_windows_length:
  "int (length (chunk_windows tx m ov start)) \<le> max 0 (int (length tx) - start)"
proof (induction tx m ov start rule: chunk_windows.induct)
  case (1 tx m ov start)
  show ?case
  proof (cases "start < int (length tx)")
    case False
    then show ?thesis by (simp add: chunk_windows_done)
  next
    case True
    let ?e = "window_end tx m start"
    let ?start' = "max (?e - ov) (start + 1)"
    have "length (chunk_windows tx m ov start) = Suc (length (chunk_windows tx m ov ?start'))"
      by (simp only: chunk_windows_step[OF True] list.size length_Cons)
    moreover have "int (length (chunk_windows tx m ov ?start')) \<le> max 0 (int (length tx) - ?start')"
      by (rule "1.IH"[OF True refl])
    ultimately show ?thesis using True by linarith
  qed
qed

subsection \<open>Short texts\<close>

lemma chunk_text_short:
  "tx \<noteq> [] \<Longrightarrow> int (length tx) \<le> m \<Longrightarrow> chunk_text tx m ov = [tx]"
  by (simp add: chunk_text_def)

text \<open>
  Claim C6 on the code. A text no longer than \<open>max_chunk_size\<close> is returned by the
  early return as it is: the text with a leading blank comes back with its blank, and the
  text of two blanks comes back as one chunk, where the loop trims every chunk and drops
  the empty ones and the claim asks the same of short texts.
\<close>

theorem chunk_text_short_untrimmed:
  "chunk_text '' a'' 1000 200 = ['' a''] \<and> chunk_text ''  '' 1000 200 = [''  ''] \<and>
   strip '' a'' = ''a'' \<and> strip ''  '' = []"
  by (simp add: chunk_text_def strip_def isspace_def)

subsection \<open>Termination and the number of iterations\<close>

lemma step_div:
  fixes x d :: int
  assumes "0 < d"
  shows "(x + d - 1) div d = 1 + (x - 1) div d"
  using assms div_add_self2[of d "x - 1"] by (simp add: algebra_simps)

lemma ceiling_as_div:
  fixes a d :: int
  assumes "0 < d"
  shows "\<lceil>real_of_int a / real_of_int d\<rceil> = (a + d - 1) div d"
proof -
  define q where "q = (a + d - 1) div d"
  define r where "r = (a + d - 1) mod d"
  have e: "a + d - 1 = q * d + r" by (simp add: q_def r_def)
  have r: "0 \<le> r" "r < d" using assms by (simp_all add: r_def)
  have qd: "(q - 1) * d = q * d - d" by (simp add: algebra_simps)
  have i1: "a \<le> q * d" using e r by linarith
  have i2: "(q - 1) * d < a" using e r qd by linarith
  have d: "0 < real_of_int d" using assms by simp
  have "real_of_int a \<le> real_of_int q * real_of_int d"
    using i1 by (metis of_int_le_iff of_int_mult)
  then have u: "real_of_int a / real_of_int d \<le> real_of_int q"
    using d by (simp add: pos_divide_le_eq)
  have "(real_of_int q - 1) * real_of_int d < real_of_int a"
    using i2 by (metis of_int_less_iff of_int_mult of_int_diff of_int_1)
  then have l: "real_of_int q - 1 < real_of_int a / real_of_int d"
    using d by (simp add: pos_less_divide_eq)
  from l u show ?thesis unfolding q_def[symmetric] by (intro ceiling_unique) simp_all
qed


lemma finditer_punct_none: "p \<notin> set w \<Longrightarrow> finditer_punct p i w = []"
  by (induction p i w rule: finditer_punct.induct) auto

lemma finditer_blank_none: "CHR 0x0A \<notin> set w \<Longrightarrow> finditer_blank i w = []"
  by (induction i w rule: finditer_blank.induct) auto

lemma set_py_slice: "set (py_slice xs a b) \<subseteq> set xs"
  unfolding py_slice_def Let_def
  by (meson set_take_subset set_drop_subset subset_trans)

lemma no_boundary_window_end:
  assumes "no_boundary_chars tx"
  shows "window_end tx m s = s + m"
proof -
  have "sentence_breaks tx a b = []" for a b
  proof -
    have "set (py_slice tx a b) \<inter> {CHR ''.'', CHR ''!'', CHR ''?'', CHR 0x0A} = {}"
      using assms set_py_slice[of tx a b] unfolding no_boundary_chars_def by blast
    then show ?thesis
      by (simp add: sentence_breaks_def Let_def finditer_punct_none finditer_blank_none)
  qed
  then show ?thesis by (simp add: window_end_def Let_def)
qed

lemma no_boundary_unshortened:
  assumes "no_boundary_chars tx" "(s, e) \<in> set (chunk_windows tx m ov start)"
  shows "e = s + m"
  using chunk_windows_starts[OF assms(2)] no_boundary_window_end[OF assms(1)] by simp

lemma unshortened_count:
  assumes "ov < m" "\<forall>(s, e) \<in> set (chunk_windows tx m ov start). e = s + m"
  shows "int (length (chunk_windows tx m ov start)) =
           max 0 ((int (length tx) - start + (m - ov) - 1) div (m - ov))"
  using assms
proof (induction tx m ov start rule: chunk_windows.induct)
  case (1 tx m ov start)
  have d: "0 < m - ov" using "1.prems"(1) by simp
  show ?case
  proof (cases "start < int (length tx)")
    case False
    then have "int (length tx) - start + (m - ov) - 1 < m - ov" by simp
    then have "(int (length tx) - start + (m - ov) - 1) div (m - ov) \<le> 0"
      using d
      by (cases "0 \<le> int (length tx) - start + (m - ov) - 1")
         (simp_all add: div_pos_pos_trivial div_neg_pos_less0 less_imp_le)
    with False show ?thesis by (simp add: chunk_windows_done)
  next
    case True
    let ?x = "int (length tx) - start"
    let ?start' = "max (window_end tx m start - ov) (start + 1)"
    have w: "chunk_windows tx m ov start =
               (start, window_end tx m start) # chunk_windows tx m ov ?start'"
      using True by (rule chunk_windows_step)
    have "(start, window_end tx m start) \<in> set (chunk_windows tx m ov start)"
      by (simp only: w list.set insertI1)
    with "1.prems"(2) have we: "window_end tx m start = start + m" by blast
    have s': "?start' = start + (m - ov)" using d we by simp
    have rest: "\<forall>(s, e) \<in> set (chunk_windows tx m ov ?start'). e = s + m"
    proof -
      have "set (chunk_windows tx m ov ?start') \<subseteq> set (chunk_windows tx m ov start)"
        by (simp only: w list.set subset_insertI)
      with "1.prems"(2) show ?thesis by blast
    qed
    have "int (length (chunk_windows tx m ov start)) =
            1 + int (length (chunk_windows tx m ov ?start'))"
      by (simp only: w list.size length_Cons)
    also have "\<dots> = 1 + max 0 ((int (length tx) - ?start' + (m - ov) - 1) div (m - ov))"
      using "1.IH"[OF True refl "1.prems"(1) rest] by simp
    also have "\<dots> = 1 + max 0 ((?x - 1) div (m - ov))" by (simp only: s') (simp add: algebra_simps)
    also have "\<dots> = 1 + (?x - 1) div (m - ov)"
      using True d by (simp add: pos_imp_zdiv_nonneg_iff)
    also have "\<dots> = (?x + (m - ov) - 1) div (m - ov)" using step_div[OF d, of ?x] by simp
    also have "\<dots> = max 0 ((?x + (m - ov) - 1) div (m - ov))"
      using True d by (simp add: pos_imp_zdiv_nonneg_iff)
    finally show ?thesis .
  qed
qed

lemma chunk_text_windows:
  "chunk_text tx m ov =
     (if tx = [] \<or> int (length tx) \<le> m then (if tx \<noteq> [] then [tx] else [])
      else window_chunks tx (chunk_windows tx m ov 0))"
  by (simp add: chunk_text_def chunk_loop_windows)

text \<open>
  Claim C9, as amended. \<open>chunk_text\<close> returns before the loop when the text is no
  longer than \<open>max_chunk_size\<close>; otherwise its iterations are the windows of
  \<open>chunk_windows\<close>. The loop terminates for every text, \<open>max_chunk_size\<close> and
  \<open>overlap\<close>: every window starts at least one character after the one before, so
  there are at most \<open>len(T)\<close> iterations. When \<open>overlap < max_chunk_size\<close> and no
  window is cut short at a sentence break, the number of iterations is bounded by the
  ceiling of \<open>len(T) / (max_chunk_size - overlap)\<close>.
\<close>

theorem chunk_loop_iterations:
  "chunk_text tx m ov =
     (if tx = [] \<or> int (length tx) \<le> m then (if tx \<noteq> [] then [tx] else [])
      else window_chunks tx (chunk_windows tx m ov 0)) \<and>
   sorted_wrt (<) (map fst (chunk_windows tx m ov 0)) \<and>
   chunk_iterations tx m ov \<le> length tx \<and>
   (ov < m \<and> (\<forall>(s, e) \<in> set (chunk_windows tx m ov 0). e = s + m) \<longrightarrow>
      int (chunk_iterations tx m ov) \<le> \<lceil>real (length tx) / real_of_int (m - ov)\<rceil>)"
proof (intro conjI impI)
  show "chunk_text tx m ov =
     (if tx = [] \<or> int (length tx) \<le> m then (if tx \<noteq> [] then [tx] else [])
      else window_chunks tx (chunk_windows tx m ov 0))"
    by (rule chunk_text_windows)
  show "sorted_wrt (<) (map fst (chunk_windows tx m ov 0))"
    by (rule chunk_windows_advance)
  show "chunk_iterations tx m ov \<le> length tx"
    using chunk_windows_length[of tx m ov 0] by (simp add: chunk_iterations_def)
next
  assume a: "ov < m \<and> (\<forall>(s, e) \<in> set (chunk_windows tx m ov 0). e = s + m)"
  then have d: "0 < m - ov" by simp
  have "int (length (chunk_windows tx m ov 0)) =
          max 0 ((int (length tx) + (m - ov) - 1) div (m - ov))"
    using unshortened_count[of ov m tx 0] a by simp
  also have "\<dots> = (int (length tx) + (m - ov) - 1) div (m - ov)"
    using d by (simp add: pos_imp_zdiv_nonneg_iff)
  also have "\<dots> = \<lceil>real_of_int (int (length tx)) / real_of_int (m - ov)\<rceil>"
    using ceiling_as_div[OF d, of "int (length tx)"] by simp
  finally have c: "int (length (chunk_windows tx m ov 0)) = \<lceil>real (length tx) / real_of_int (m - ov)\<rceil>"
    by simp
  have "0 \<le> \<lceil>real (length tx) / real_of_int (m - ov)\<rceil>"
    using c by (metis of_nat_0_le_iff)
  with c show "int (chunk_iterations tx m ov) \<le> \<lceil>real (length tx) / real_of_int (m - ov)\<rceil>"
    by (simp add: chunk_iterations_def)
qed

lemma ten_letters_windows:
  "chunk_windows ''abcdefghij'' 4 1 0 = [(0, 4), (3, 7), (6, 10), (9, 13)]"
  by (simp add: chunk_windows.simps window_end_def sentence_breaks_def py_slice_def Let_def)

theorem chunk_loop_iterations_witness:
  "(1 :: int) < 4 \<and>
   chunk_windows ''abcdefghij'' 4 1 0 = [(0, 4), (3, 7), (6, 10), (9, 13)] \<and>
   list_all (\<lambda>(s, e). e = s + 4) (chunk_windows ''abcdefghij'' 4 1 0) \<and>
   chunk_iterations ''abcdefghij'' 4 1 = 4 \<and>
   int (chunk_iterations ''abcdefghij'' 4 1) \<le> \<lceil>real (length ''abcdefghij'') / real_of_int (4 - 1)\<rceil> \<and>
   chunk_text ''abcdefghij'' 4 1 = window_chunks ''abcdefghij'' [(0, 4), (3, 7), (6, 10), (9, 13)]"
proof -
  have h1: "(1 :: int) < 4" by simp
  have h2: "\<forall>(s, e) \<in> set (chunk_windows ''abcdefghij'' 4 1 0). e = s + 4"
    by (simp add: ten_letters_windows)
  have h2': "list_all (\<lambda>(s, e). e = s + 4) (chunk_windows ''abcdefghij'' 4 1 0)"
    by (simp add: ten_letters_windows)
  have i: "chunk_iterations ''abcdefghij'' 4 1 = 4"
    by (simp add: chunk_iterations_def ten_letters_windows)
  note th = chunk_loop_iterations[of "''abcdefghij''" 4 1]
  have c: "int (chunk_iterations ''abcdefghij'' 4 1) \<le> \<lceil>real (length ''abcdefghij'') / real_of_int (4 - 1)\<rceil>"
    by (rule mp[OF conjunct2[OF conjunct2[OF conjunct2[OF th]]] conjI[OF h1 h2]])
  have l: "chunk_text ''abcdefghij'' 4 1 = window_chunks ''abcdefghij'' [(0, 4), (3, 7), (6, 10), (9, 13)]"
    using conjunct1[OF th] by (simp add: ten_letters_windows)
  show ?thesis by (intro conjI h1 ten_letters_windows h2' i c l)
qed

lemma six_sentences_windows:
  "chunk_windows ''a. b. c. d. e. f'' 4 0 0 = [(0, 3), (3, 6), (6, 9), (9, 12), (12, 16)]"
  by (simp add: chunk_windows.simps window_end_def sentence_breaks_def py_slice_def Let_def isspace_def)

text \<open>
  With sentence breaks the bound fails: sixteen characters, windows of 4 and no overlap
  take five iterations, one more than the ceiling of 16 / 4.
\<close>

theorem chunk_loop_iterations_counterexample:
  "(0 :: int) < 4 \<and>
   chunk_text ''a. b. c. d. e. f'' 4 0 = [''a.'', ''b.'', ''c.'', ''d.'', ''e. f''] \<and>
   chunk_iterations ''a. b. c. d. e. f'' 4 0 = 5 \<and>
   \<lceil>real (length ''a. b. c. d. e. f'') / real_of_int (4 - 0)\<rceil> = 4"
  by (simp add: six_sentences_windows chunk_text_def chunk_loop_windows window_chunks_def
      chunk_iterations_def py_slice_def strip_def isspace_def)

subsection \<open>Coverage\<close>

lemma takeWhile_prefix_holds:
  assumes "q < length (takeWhile P xs)"
  shows "P (xs ! q)"
proof -
  have "takeWhile P xs ! q \<in> set (takeWhile P xs)" using assms by (rule nth_mem)
  then have "P (takeWhile P xs ! q)" by (rule set_takeWhileD[THEN conjunct2])
  then show ?thesis using assms by (simp add: takeWhile_nth)
qed

lemma trim_span:
  fixes P :: "'a \<Rightarrow> bool"
  defines "i \<equiv> \<lambda>xs. length (takeWhile P xs)"
  defines "k \<equiv> \<lambda>xs. length (takeWhile P (rev (dropWhile P xs)))"
  shows "rev (dropWhile P (rev (dropWhile P xs))) = take (length xs - i xs - k xs) (drop (i xs) xs)"
    and "q < length xs \<Longrightarrow> \<not> P (xs ! q) \<Longrightarrow> i xs \<le> q \<and> q < length xs - k xs"
proof -
  let ?ys = "dropWhile P xs"
  have ys: "?ys = drop (i xs) xs" by (simp add: i_def dropWhile_eq_drop)
  have ly: "length ?ys = length xs - i xs" by (simp add: ys)
  have "rev (dropWhile P (rev ?ys)) = rev (drop (k xs) (rev ?ys))"
    by (simp add: k_def dropWhile_eq_drop)
  also have "\<dots> = take (length ?ys - k xs) ?ys" by (simp add: rev_drop)
  finally show "rev (dropWhile P (rev (dropWhile P xs))) = take (length xs - i xs - k xs) (drop (i xs) xs)"
    by (simp only: ly) (simp add: ys)
  assume q: "q < length xs" "\<not> P (xs ! q)"
  have iq: "i xs \<le> q"
  proof (rule ccontr)
    assume "\<not> i xs \<le> q"
    then have "q < length (takeWhile P xs)" by (simp add: i_def)
    from takeWhile_prefix_holds[OF this] q(2) show False by simp
  qed
  have kq: "q < length xs - k xs"
  proof (rule ccontr)
    assume n: "\<not> q < length xs - k xs"
    let ?q' = "length xs - 1 - q"
    have kl: "k xs \<le> length ?ys" by (simp add: k_def length_takeWhile_le[of P "rev ?ys", simplified])
    have "?q' < k xs" using n q(1) by linarith
    then have q': "?q' < length (takeWhile P (rev ?ys))" by (simp add: k_def)
    from takeWhile_prefix_holds[OF q'] have "P (rev ?ys ! ?q')" .
    moreover have "?q' < length ?ys" using \<open>?q' < k xs\<close> kl by simp
    then have "rev ?ys ! ?q' = ?ys ! (length ?ys - Suc ?q')" by (simp add: rev_nth)
    moreover have "length ?ys - Suc ?q' = q - i xs" using ly iq q(1) by simp
    moreover have "?ys ! (q - i xs) = xs ! q" using iq q(1) by (simp add: ys)
    ultimately show False using q(2) by simp
  qed
  from iq kq show "i xs \<le> q \<and> q < length xs - k xs" ..
qed

lemma strip_span:
  "\<exists>i j. i \<le> j \<and> j \<le> length xs \<and> strip xs = take (j - i) (drop i xs) \<and>
         (\<forall>q < length xs. \<not> isspace (xs ! q) \<longrightarrow> i \<le> q \<and> q < j)"
proof -
  let ?i = "length (takeWhile isspace xs)"
  let ?k = "length (takeWhile isspace (rev (dropWhile isspace xs)))"
  let ?j = "max ?i (length xs - ?k)"
  have s: "strip xs = take (length xs - ?i - ?k) (drop ?i xs)"
    unfolding strip_def by (rule trim_span(1))
  have e: "length xs - ?i - ?k = ?j - ?i" by simp
  have q: "\<forall>q < length xs. \<not> isspace (xs ! q) \<longrightarrow> ?i \<le> q \<and> q < ?j"
    using trim_span(2)[of _ xs isspace] by fastforce
  have "?i \<le> ?j" "?j \<le> length xs" by (simp_all add: length_takeWhile_le)
  with s e q show ?thesis by metis
qed


lemma chunk_windows_cover:
  assumes "1 \<le> m" "0 \<le> ov"
  shows "0 \<le> start \<Longrightarrow> start \<le> p \<Longrightarrow> p < int (length tx) \<Longrightarrow>
         \<exists>(s, e) \<in> set (chunk_windows tx m ov start). s \<le> p \<and> p < e"
  using assms
proof (induction tx m ov start rule: chunk_windows.induct)
  case (1 tx m ov start)
  have lt: "start < int (length tx)" using "1.prems" by simp
  let ?e = "window_end tx m start"
  let ?start' = "max (?e - ov) (start + 1)"
  have w: "chunk_windows tx m ov start = (start, ?e) # chunk_windows tx m ov ?start'"
    using lt by (rule chunk_windows_step)
  have b: "start < ?e" using window_end_bounds[of m start tx] "1.prems" by simp
  show ?case
  proof (cases "p < ?e")
    case True
    with "1.prems"(2) w show ?thesis by simp
  next
    case False
    have "0 \<le> ?start'" "?start' \<le> p" using False b "1.prems" by linarith+
    from "1.IH"[OF lt refl this "1.prems"(3,4,5)] w show ?thesis by auto
  qed
qed

lemma window_chunk_span:
  assumes "0 \<le> s" "s \<le> int p" "int p < e" "p < length tx" "\<not> isspace (tx ! p)"
  shows "\<exists>a b. a \<le> p \<and> p < b \<and> b \<le> length tx \<and>
           strip (py_slice tx s e) = take (b - a) (drop a tx) \<and> strip (py_slice tx s e) \<noteq> []"
proof -
  define s' where "s' = nat s"
  define h where "h = nat (min e (int (length tx)))"
  define w where "w = py_slice tx s e"
  have e0: "0 \<le> e" using assms(2,3) by linarith
  have w: "w = take (h - s') (drop s' tx)"
    unfolding w_def s'_def h_def using py_slice_nonneg[OF assms(1) e0] .
  have sp: "s' \<le> p" unfolding s'_def using assms(1,2) by linarith
  have ph: "p < h" unfolding h_def using assms(3,4) by linarith
  have hl: "h \<le> length tx" unfolding h_def by linarith
  have lw: "length w = h - s'" using hl by (simp add: w)
  have qw: "p - s' < length w" using lw sp ph by linarith
  have "w ! (p - s') = drop s' tx ! (p - s')" using qw lw by (simp add: w)
  also have "\<dots> = tx ! p" using sp assms(4) by simp
  finally have wq: "w ! (p - s') = tx ! p" .
  from strip_span[of w] obtain i j where ij: "i \<le> j" "j \<le> length w"
    "strip w = take (j - i) (drop i w)"
    "\<forall>q < length w. \<not> isspace (w ! q) \<longrightarrow> i \<le> q \<and> q < j"
    by blast
  have "\<not> isspace (w ! (p - s'))" using wq assms(5) by simp
  with ij(4) qw have q: "i \<le> p - s'" "p - s' < j" by blast+
  have "drop i w = take (h - s' - i) (drop (i + s') tx)"
    unfolding w by (simp only: drop_take drop_drop)
  then have "strip w = take (j - i) (take (h - s' - i) (drop (i + s') tx))"
    using ij(3) by simp
  also have "\<dots> = take (min (j - i) (h - s' - i)) (drop (i + s') tx)"
    by (simp only: take_take)
  also have "min (j - i) (h - s' - i) = (s' + j) - (s' + i)" using ij(2) lw by linarith
  also have "i + s' = s' + i" by simp
  finally have st: "strip w = take ((s' + j) - (s' + i)) (drop (s' + i) tx)" .
  have a: "s' + i \<le> p" using q(1) sp by linarith
  have b: "p < s' + j" using q(2) sp by linarith
  have c: "s' + j \<le> length tx" using ij(2) lw hl sp ph by linarith
  have "length (strip w) = min ((s' + j) - (s' + i)) (length tx - (s' + i))"
    unfolding st by simp
  then have "0 < length (strip w)" using a b c assms(4) by linarith
  then have ne: "strip w \<noteq> []" by auto
  from a b c st ne show ?thesis unfolding w_def by blast
qed

text \<open>
  Claim C7, as amended. For \<open>max_chunk_size \<ge> 1\<close> and \<open>overlap \<ge> 0\<close>: when the
  loop runs, every offset of the text lies in the window of some iteration; and every
  character of the text that is not whitespace appears, at its offset, in a returned chunk
  (the chunk is a slice of the text around that offset). Whitespace at the two ends of a
  window is trimmed away and a window of whitespace gives no chunk.
\<close>

theorem chunk_text_coverage:
  assumes "1 \<le> m" "0 \<le> ov" "p < length tx"
  shows "(m < int (length tx) \<longrightarrow>
            (\<exists>(s, e) \<in> set (chunk_windows tx m ov 0). s \<le> int p \<and> int p < e)) \<and>
         (\<not> isspace (tx ! p) \<longrightarrow>
            (\<exists>a b. a \<le> p \<and> p < b \<and> b \<le> length tx \<and>
                   take (b - a) (drop a tx) \<in> set (chunk_text tx m ov)))"
proof -
  have cov: "\<exists>(s, e) \<in> set (chunk_windows tx m ov 0). s \<le> int p \<and> int p < e"
    using chunk_windows_cover[OF assms(1,2), of 0 "int p" tx] assms(3) by simp
  have ch: "\<exists>a b. a \<le> p \<and> p < b \<and> b \<le> length tx \<and>
                   take (b - a) (drop a tx) \<in> set (chunk_text tx m ov)"
    if ns: "\<not> isspace (tx ! p)"
  proof (cases "int (length tx) \<le> m")
    case True
    have "tx \<noteq> []" using assms(3) by auto
    then have "chunk_text tx m ov = [tx]" using True by (rule chunk_text_short)
    then have "take (length tx - 0) (drop 0 tx) \<in> set (chunk_text tx m ov)" by simp
    with assms(3) show ?thesis by blast
  next
    case False
    then have ct: "chunk_text tx m ov = window_chunks tx (chunk_windows tx m ov 0)"
      using assms(3) by (auto simp: chunk_text_def chunk_loop_windows)
    from cov obtain s e where se: "(s, e) \<in> set (chunk_windows tx m ov 0)" "s \<le> int p" "int p < e"
      by blast
    from chunk_windows_starts[OF se(1)] have s0: "0 \<le> s" by simp
    from window_chunk_span[OF s0 se(2,3) assms(3) ns] obtain a b where
      ab: "a \<le> p" "p < b" "b \<le> length tx" "strip (py_slice tx s e) = take (b - a) (drop a tx)"
      "strip (py_slice tx s e) \<noteq> []" by blast
    have "strip (py_slice tx s e) \<in> set (window_chunks tx (chunk_windows tx m ov 0))"
      using se(1) ab(5) by (force simp: window_chunks_def)
    with ab ct show ?thesis by metis
  qed
  from cov ch show ?thesis by blast
qed

theorem chunk_text_coverage_witness:
  "(1 :: int) \<le> 4 \<and> (0 :: int) \<le> 1 \<and> 5 < length ''abc. defgh'' \<and>
   4 < int (length ''abc. defgh'') \<and> \<not> isspace (''abc. defgh'' ! 5) \<and>
   (\<exists>(s, e) \<in> set (chunk_windows ''abc. defgh'' 4 1 0). s \<le> int 5 \<and> int 5 < e) \<and>
   (\<exists>a b. a \<le> 5 \<and> 5 < b \<and> b \<le> length ''abc. defgh'' \<and>
          take (b - a) (drop a ''abc. defgh'') \<in> set (chunk_text ''abc. defgh'' 4 1))"
proof -
  have h: "(1 :: int) \<le> 4" "(0 :: int) \<le> 1" "5 < length ''abc. defgh''" by simp_all
  have l: "4 < int (length ''abc. defgh'')" by simp
  have n: "\<not> isspace (''abc. defgh'' ! 5)" by (simp add: isspace_def)
  note th = chunk_text_coverage[OF h]
  have 1: "\<exists>(s, e) \<in> set (chunk_windows ''abc. defgh'' 4 1 0). s \<le> int 5 \<and> int 5 < e"
    by (rule mp[OF conjunct1[OF th] l])
  have 2: "\<exists>a b. a \<le> 5 \<and> 5 < b \<and> b \<le> length ''abc. defgh'' \<and>
          take (b - a) (drop a ''abc. defgh'') \<in> set (chunk_text ''abc. defgh'' 4 1)"
    by (rule mp[OF conjunct2[OF th] n])
  show ?thesis by (intro conjI h l n 1 2)
qed

lemma blanks_dropped: "chunk_text ''ab  cd'' 2 0 = [''ab'', ''cd'']"
  by (simp add: chunk_text_def chunk_loop_windows window_chunks_def chunk_windows.simps
      window_end_def sentence_breaks_def py_slice_def strip_def isspace_def Let_def)

lemma negative_overlap_skips: "chunk_text ''abcdef'' 2 (- 1) = [''ab'', ''de'']"
  by (simp add: chunk_text_def chunk_loop_windows window_chunks_def chunk_windows.simps
      window_end_def sentence_breaks_def py_slice_def strip_def isspace_def Let_def)

lemma zero_size_empty: "chunk_text ''abc'' 0 0 = []"
  by (simp add: chunk_text_def chunk_loop_windows window_chunks_def chunk_windows.simps
      window_end_def sentence_breaks_def py_slice_def strip_def isspace_def Let_def)

text \<open>
  Blanks between two windows are in no returned chunk; with a negative overlap, or with
  \<open>max_chunk_size = 0\<close>, letters are in none either.
\<close>

theorem chunk_text_coverage_counterexample:
  "chunk_text ''ab  cd'' 2 0 = [''ab'', ''cd''] \<and>
   \<not> (\<forall>c \<in> set ''ab  cd''. \<exists>ch \<in> set (chunk_text ''ab  cd'' 2 0). c \<in> set ch) \<and>
   chunk_text ''abcdef'' 2 (- 1) = [''ab'', ''de''] \<and>
   \<not> (\<forall>c \<in> set ''abcdef''. \<exists>ch \<in> set (chunk_text ''abcdef'' 2 (- 1)). c \<in> set ch) \<and>
   chunk_text ''abc'' 0 0 = [] \<and>
   \<not> (\<forall>c \<in> set ''abc''. \<exists>ch \<in> set (chunk_text ''abc'' 0 0). c \<in> set ch)"
  by (auto simp: blanks_dropped negative_overlap_skips zero_size_empty)

end
